theory Spec2Isabelle
  imports
    Complex_Main
    "HOL-Library.Char_ord"
    "HOL-Library.List_Lexorder"
    "HOL-Library.AList"
begin

section \<open>Characters and strings\<close>

text \<open>
  A Python \<open>str\<close> is a sequence of code points. Here a string is a \<^typ>\<open>string\<close>, a
  character is a code point below 256 (Latin-1), and the three character classes that the
  patterns of \<^verbatim>\<open>tools/translate.py\<close> use are the ones Python's \<open>re\<close> module gives
  these code points: \<^verbatim>\<open>\s\<close> (also what \<open>str.strip\<close> removes), \<^verbatim>\<open>\d\<close> and \<^verbatim>\<open>\w\<close>.
\<close>

definition code :: "char \<Rightarrow> nat" where
  "code c = of_char c"

definition is_space :: "char \<Rightarrow> bool" where
  "is_space c = (let n = code c in
     (9 \<le> n \<and> n \<le> 13) \<or> (28 \<le> n \<and> n \<le> 32) \<or> n = 133 \<or> n = 160)"

definition is_digit :: "char \<Rightarrow> bool" where
  "is_digit c = (let n = code c in 48 \<le> n \<and> n \<le> 57)"

definition is_word :: "char \<Rightarrow> bool" where
  "is_word c = (let n = code c in
     (48 \<le> n \<and> n \<le> 57) \<or> (65 \<le> n \<and> n \<le> 90) \<or> n = 95 \<or> (97 \<le> n \<and> n \<le> 122) \<or>
     n = 170 \<or> n = 178 \<or> n = 179 \<or> n = 181 \<or> n = 185 \<or> n = 186 \<or>
     (188 \<le> n \<and> n \<le> 190) \<or> (192 \<le> n \<and> n \<le> 214) \<or> (216 \<le> n \<and> n \<le> 246) \<or>
     (248 \<le> n \<and> n \<le> 255))"

text \<open>The lower-case mapping that \<^verbatim>\<open>re.IGNORECASE\<close> compares characters under.\<close>

definition lower_char :: "char \<Rightarrow> char" where
  "lower_char c = (let n = code c in
     if (65 \<le> n \<and> n \<le> 90) \<or> (192 \<le> n \<and> n \<le> 214) \<or> (216 \<le> n \<and> n \<le> 222)
     then char_of (n + 32) else c)"

text \<open>\<open>str.strip()\<close>: leading and trailing white space removed.\<close>

definition strip :: "string \<Rightarrow> string" where
  "strip s = rev (dropWhile is_space (rev (dropWhile is_space s)))"

section \<open>The fragment of Python's \<open>re\<close> that the script uses\<close>

text \<open>
  The patterns are built from literal characters (compared exactly, or under
  \<^verbatim>\<open>re.IGNORECASE\<close>), greedy repetitions \<^verbatim>\<open>*\<close> and \<^verbatim>\<open>+\<close> of a character class,
  concatenation, alternation, one capturing group and the anchor \<^verbatim>\<open>$\<close>.
\<close>

datatype rx =
    Eps
  | Chr char
  | ChrI char
  | Star "char \<Rightarrow> bool"
  | Plus "char \<Rightarrow> bool"
  | Seq rx rx
  | Alt rx rx
  | Grp rx
  | Eos

text \<open>
  A greedy repetition of a class tries the longest run first and gives characters back
  one at a time: \<open>greedy p s\<close> lists what is left of \<open>s\<close> in that order.
\<close>

fun greedy :: "(char \<Rightarrow> bool) \<Rightarrow> string \<Rightarrow> string list" where
  "greedy p [] = [[]]"
| "greedy p (c # cs) = (if p c then greedy p cs @ [c # cs] else [c # cs])"

text \<open>
  The backtracking matcher. A state is the text captured by group 1 so far and the text
  still to be read; \<open>rxm r st\<close> lists the states in which \<open>r\<close> can end, in the order
  in which the backtracking engine tries them, so the head of the list is the match that
  \<open>re\<close> reports. \<^verbatim>\<open>$\<close> holds at the end of the text and before a final newline.
\<close>

fun rxm :: "rx \<Rightarrow> string \<times> string \<Rightarrow> (string \<times> string) list" where
  "rxm Eps (g, s) = [(g, s)]"
| "rxm (Chr c) (g, s) =
     (case s of [] \<Rightarrow> [] | x # xs \<Rightarrow> if x = c then [(g, xs)] else [])"
| "rxm (ChrI c) (g, s) =
     (case s of [] \<Rightarrow> [] | x # xs \<Rightarrow> if lower_char x = lower_char c then [(g, xs)] else [])"
| "rxm (Star p) (g, s) = map (Pair g) (greedy p s)"
| "rxm (Plus p) (g, s) =
     (case s of [] \<Rightarrow> [] | x # xs \<Rightarrow> if p x then map (Pair g) (greedy p xs) else [])"
| "rxm (Seq a b) (g, s) = concat (map (rxm b) (rxm a (g, s)))"
| "rxm (Alt a b) (g, s) = rxm a (g, s) @ rxm b (g, s)"
| "rxm (Grp a) (g, s) =
     map (\<lambda>(g', s'). (take (length s - length s') s, s')) (rxm a (g, s))"
| "rxm Eos (g, s) = (if s = [] \<or> s = [CHR 0x0A] then [(g, s)] else [])"

text \<open>A literal word, and a literal word under \<^verbatim>\<open>re.IGNORECASE\<close>.\<close>

fun lits :: "string \<Rightarrow> rx" where
  "lits [] = Eps"
| "lits (c # cs) = Seq (Chr c) (lits cs)"

fun litsI :: "string \<Rightarrow> rx" where
  "litsI [] = Eps"
| "litsI (c # cs) = Seq (ChrI c) (litsI cs)"

text \<open>\<open>re.match\<close> tries the pattern at the start of the text only.\<close>

definition re_match :: "rx \<Rightarrow> string \<Rightarrow> bool" where
  "re_match r s = (rxm r ([], s) \<noteq> [])"

text \<open>\<open>re.search\<close> tries every start position, here only as the test "is there a match".\<close>

definition re_search :: "rx \<Rightarrow> string \<Rightarrow> bool" where
  "re_search r s = list_ex (\<lambda>i. rxm r ([], drop i s) \<noteq> []) [0..<Suc (length s)]"

text \<open>
  \<open>finditer\<close>: the matches from left to right, each search starting where the match
  before it ended. A match object is its start, its end and the text of group 1. (After an
  empty match the model moves one character on; none of the patterns below matches the
  empty text.)
\<close>

record rmatch =
  m_start :: nat
  m_end :: nat
  m_group1 :: string

function finditer_from :: "rx \<Rightarrow> string \<Rightarrow> nat \<Rightarrow> rmatch list" where
  "finditer_from r s pos =
     (if length s < pos then []
      else (case rxm r ([], drop pos s) of
              [] \<Rightarrow> finditer_from r s (Suc pos)
            | (g, rest) # _ \<Rightarrow>
                \<lparr>m_start = pos, m_end = length s - length rest, m_group1 = g\<rparr> #
                finditer_from r s
                  (if pos < length s - length rest then length s - length rest else Suc pos)))"
  by pat_completeness auto
termination
  by (relation "measure (\<lambda>(r, s, pos). Suc (length s) - pos)") auto

definition finditer :: "rx \<Rightarrow> string \<Rightarrow> rmatch list" where
  "finditer r s = finditer_from r s 0"

section \<open>Token extractor\<close>

text \<open>\<^verbatim>\<open>SIMPLE_PLACEHOLDER_RE = re.compile(r"\{(\w+)\}")\<close>\<close>

definition SIMPLE_PLACEHOLDER_RE :: rx where
  "SIMPLE_PLACEHOLDER_RE = Seq (Chr CHR ''{'') (Seq (Grp (Plus is_word)) (Chr CHR ''}''))"

text \<open>\<^verbatim>\<open>(?:plural|select|selectordinal)\<close> under \<^verbatim>\<open>re.IGNORECASE\<close>\<close>

definition icu_keyword :: rx where
  "icu_keyword = Alt (litsI ''plural'') (Alt (litsI ''select'') (litsI ''selectordinal''))"

text \<open>
  \<^verbatim>\<open>ICU_VAR_RE = re.compile(r"\{(\w+)\s*,\s*(?:plural|select|selectordinal)\s*,", re.IGNORECASE)\<close>
\<close>

definition ICU_VAR_RE :: rx where
  "ICU_VAR_RE =
     Seq (Chr CHR ''{'') (Seq (Grp (Plus is_word)) (Seq (Star is_space) (Seq (Chr CHR '','')
       (Seq (Star is_space) (Seq icu_keyword (Seq (Star is_space) (Chr CHR '','')))))))"

text \<open>
  The pattern of line 138, \<^verbatim>\<open>r"\{\w+\s*,\s*(?:plural|select|selectordinal)"\<close> under
  \<^verbatim>\<open>re.IGNORECASE\<close>.
\<close>

definition icu_head_re :: rx where
  "icu_head_re =
     Seq (Chr CHR ''{'') (Seq (Plus is_word) (Seq (Star is_space) (Seq (Chr CHR '','')
       (Seq (Star is_space) icu_keyword))))"

text \<open>
  The pattern of line 143, \<^verbatim>\<open>r"(?:=\d+|zero|one|two|few|many|other)\s*$"\<close> under
  \<^verbatim>\<open>re.IGNORECASE\<close>.
\<close>

definition case_label_re :: rx where
  "case_label_re =
     Seq (Alt (Seq (Chr CHR ''='') (Plus is_digit))
          (Alt (litsI ''zero'') (Alt (litsI ''one'') (Alt (litsI ''two'')
          (Alt (litsI ''few'') (Alt (litsI ''many'') (litsI ''other'')))))))
       (Seq (Star is_space) Eos)"

text \<open>The body of the second loop of \<open>extract_placeholder_names\<close>, for one match.\<close>

definition simple_step :: "string \<Rightarrow> rmatch \<Rightarrow> string set \<Rightarrow> string set" where
  "simple_step s m names =
     (let name = m_group1 m;
          pos = m_start m;
          rest = drop pos s
      in if re_match icu_head_re rest then names
         else let before = take pos s
              in if re_search case_label_re before then names
                 else insert name names)"

definition extract_placeholder_names :: "string \<Rightarrow> string list" where
  "extract_placeholder_names s =
     (let names = fold (\<lambda>m names. insert (m_group1 m) names) (finditer ICU_VAR_RE s) {};
          names = fold (simple_step s) (finditer SIMPLE_PLACEHOLDER_RE s) names
      in sorted_list_of_set names)"

definition has_icu_block :: "string \<Rightarrow> bool" where
  "has_icu_block s = re_search ICU_VAR_RE s"

section \<open>Validator\<close>

text \<open>
  \<^verbatim>\<open>pattern = r"\{" + re.escape(name) + r"(?:\}|\s*,)"\<close>: a name is made of word
  characters, which \<open>re.escape\<close> leaves as literals.
\<close>

definition name_pattern :: "string \<Rightarrow> rx" where
  "name_pattern name =
     Seq (Chr CHR ''{'') (Seq (lits name) (Alt (Chr CHR ''}'') (Seq (Star is_space) (Chr CHR '',''))))"

fun check_names :: "string list \<Rightarrow> string \<Rightarrow> bool \<times> string option" where
  "check_names [] out = (True, None)"
| "check_names (name # names) out =
     (if \<not> re_search (name_pattern name) out
      then (False, Some (''Missing placeholder: {'' @ name @ ''}''))
      else check_names names out)"

definition validate_preserved_tokens :: "string \<Rightarrow> string \<Rightarrow> bool \<times> string option" where
  "validate_preserved_tokens src out =
     (let src_names = extract_placeholder_names src
      in case check_names src_names out of
           (False, why) \<Rightarrow> (False, why)
         | (True, _) \<Rightarrow>
             if has_icu_block src \<and> \<not> has_icu_block out
             then (False, Some ''ICU plural/select block missing'')
             else (True, None))"

section \<open>Values, errors and the backend\<close>

text \<open>
  The values that \<open>json.load\<close> produces and that the documents and the backend's replies
  are made of; Python's \<open>None\<close> is \<open>JNull\<close>. A \<open>dict\<close> keeps its keys in insertion
  order, so it is an association list (with distinct keys). A \<open>float\<close> is the real number
  it denotes (no NaN or infinity).
\<close>

datatype json =
    JNull
  | JBool bool
  | JInt int
  | JFloat real
  | JString string
  | JArray "json list"
  | JObject "(string \<times> json) list"

type_synonym doc = "(string \<times> json) list"

text \<open>\<open>key in d\<close>, \<open>d.get(key)\<close> and \<open>d[key] = value\<close>.\<close>

definition dict_in :: "string \<Rightarrow> doc \<Rightarrow> bool" where
  "dict_in key d = (map_of d key \<noteq> None)"

definition dict_get :: "doc \<Rightarrow> string \<Rightarrow> json" where
  "dict_get d key = (case map_of d key of None \<Rightarrow> JNull | Some v \<Rightarrow> v)"

definition dict_set :: "doc \<Rightarrow> string \<Rightarrow> json \<Rightarrow> doc" where
  "dict_set d key v = AList.update key v d"

text \<open>
  Every exception that the script can meet is an \<open>Exception\<close>; what the script uses of it
  is \<open>str(e)\<close>. \<open>BackendError\<close> stands for whatever \<open>http_post_json\<close> raises
  (connection refused, timeout, a reply that is not JSON).
\<close>

datatype error =
    BackendError string
  | AttributeError string
  | ValueError string
  | ZeroDivisionError

fun str_of :: "error \<Rightarrow> string" where
  "str_of (BackendError m) = m"
| "str_of (AttributeError m) = m"
| "str_of (ValueError m) = m"
| "str_of ZeroDivisionError = ''integer modulo by zero''"

fun type_name :: "json \<Rightarrow> string" where
  "type_name JNull = ''NoneType''"
| "type_name (JBool _) = ''bool''"
| "type_name (JInt _) = ''int''"
| "type_name (JFloat _) = ''float''"
| "type_name (JString _) = ''str''"
| "type_name (JArray _) = ''list''"
| "type_name (JObject _) = ''dict''"

definition no_attribute :: "json \<Rightarrow> string \<Rightarrow> error" where
  "no_attribute v attr =
     AttributeError ([CHR 0x27] @ type_name v @ [CHR 0x27] @ '' object has no attribute '' @
                     [CHR 0x27] @ attr @ [CHR 0x27])"

record OllamaConfig =
  host :: string
  model :: string
  timeout_s :: real
  temperature :: real

text \<open>
  The backend is outside the program: it is a parameter, the reply to the \<open>n\<close>-th request
  that a job sends (counted from 0), given the URL, the payload and the timeout. It may
  answer anything or raise.
\<close>

type_synonym backend = "nat \<Rightarrow> string \<Rightarrow> json \<Rightarrow> real \<Rightarrow> error + json"

definition http_post_json :: "backend \<Rightarrow> nat \<Rightarrow> string \<Rightarrow> json \<Rightarrow> real \<Rightarrow> error + json" where
  "http_post_json http n url payload timeout = http n url payload timeout"

definition ollama_generate :: "backend \<Rightarrow> nat \<Rightarrow> OllamaConfig \<Rightarrow> string \<Rightarrow> error + string" where
  "ollama_generate http n cfg prompt =
     (let url = rev (dropWhile (\<lambda>c. c = CHR ''/'') (rev (host cfg))) @ ''/api/generate'';
          payload = JObject
            [(''model'', JString (model cfg)),
             (''prompt'', JString prompt),
             (''stream'', JBool False),
             (''options'', JObject [(''temperature'', JFloat (temperature cfg))])]
      in case http_post_json http n url payload (timeout_s cfg) of
           Inl e \<Rightarrow> Inl e
         | Inr resp \<Rightarrow>
             (case resp of
                JObject d \<Rightarrow>
                  (case (case map_of d ''response'' of None \<Rightarrow> JString [] | Some v \<Rightarrow> v) of
                     JString t \<Rightarrow> Inr (strip t)
                   | v \<Rightarrow> Inl (no_attribute v ''strip''))
              | v \<Rightarrow> Inl (no_attribute v ''get'')))"

text \<open>\<open>time.sleep\<close> only waits, unless the duration is negative: then it raises.\<close>

definition time_sleep :: "real \<Rightarrow> error + unit" where
  "time_sleep secs =
     (if secs < 0 then Inl (ValueError ''sleep length must be non-negative'') else Inr ())"

section \<open>Prompt builder\<close>

definition newline :: string where
  "newline = [CHR 0x0A]"

fun join :: "string \<Rightarrow> string list \<Rightarrow> string" where
  "join sep [] = []"
| "join sep [x] = x"
| "join sep (x # y # ys) = x @ sep @ join sep (y # ys)"

definition build_prompt :: "string \<Rightarrow> string \<Rightarrow> string \<Rightarrow> string list \<Rightarrow> bool \<Rightarrow> string" where
  "build_prompt text target_lang target_code placeholder_names has_icu =
     (let instructions = [];
          instructions =
            (if placeholder_names \<noteq> []
             then (let placeholders = join '', '' (map (\<lambda>t. ''{'' @ t @ ''}'') placeholder_names)
                   in instructions @
                      [''CRITICAL: Keep these placeholders EXACTLY as they appear: '' @ placeholders])
             else instructions);
          instructions =
            (if has_icu
             then instructions @
                  [''CRITICAL: Preserve ICU message format structure (plural, select, =0, =1, other, etc.). Only translate the text inside the forms.'']
             else instructions);
          instruction_text = (if instructions \<noteq> [] then join newline instructions else []);
          separator = (if instruction_text \<noteq> [] then newline else [])
      in ''You are a professional English (en) to '' @ target_lang @ '' ('' @ target_code @
         '') translator. Your goal is to accurately convey the meaning and nuances of the original English text while adhering to '' @
         target_lang @ '' grammar, vocabulary, and cultural sensitivities.'' @ newline @
         ''Produce only the '' @ target_lang @
         '' translation, without any additional explanations or commentary.'' @
         separator @ instruction_text @ newline @
         ''Please translate the following English text into '' @ target_lang @ '':'' @
         newline @ newline @ newline @ text)"

section \<open>Job runner\<close>

text \<open>
  \<open>translate_one\<close> returns \<open>(key, translated_text, error_or_none, used_fallback)\<close>. The
  model returns with it the list of the configurations it sent a request to, in order: the
  requests are the effect of a job.
\<close>

type_synonym outcome = "string \<times> string \<times> string option \<times> bool"

text \<open>
  What the \<open>try\<close> block of one attempt does (lines 212 to 223): it reaches the
  \<open>return\<close> with a text, or it reaches the \<open>continue\<close> of line 220 with the new
  \<open>last_err\<close>, or it raises.
\<close>

datatype try_result = TryReturn string | TryContinue string | TryRaise error

definition try_block ::
  "backend \<Rightarrow> nat \<Rightarrow> string \<Rightarrow> string \<Rightarrow> OllamaConfig \<Rightarrow> int \<Rightarrow> real \<Rightarrow> int \<Rightarrow> try_result" where
  "try_block http n text prompt cfg retries backoff_s attempt =
     (case ollama_generate http n cfg prompt of
        Inl e \<Rightarrow> TryRaise e
      | Inr out \<Rightarrow>
          (case validate_preserved_tokens text out of
             (False, why) \<Rightarrow>
               (let last_err = ''Validation failed: '' @
                      (case why of None \<Rightarrow> ''None'' | Some w \<Rightarrow> w)
                in if attempt < retries
                   then (case time_sleep (backoff_s * (of_int attempt + 1)) of
                           Inl e \<Rightarrow> TryRaise e
                         | Inr _ \<Rightarrow> TryContinue last_err)
                   else TryRaise (ValueError last_err))
           | (True, _) \<Rightarrow> TryReturn out))"

text \<open>
  The loop \<open>for attempt in range(retries + 1)\<close> with its \<open>except Exception\<close> clause
  (lines 210 to 229). It ends with the \<open>return\<close> of line 223, with an exception that the
  handler itself raises (the sleep of line 228), or by running out of attempts.
\<close>

datatype loop_result = Return outcome | Raise error | Exhausted "string option"

function for_attempts ::
  "backend \<Rightarrow> string \<Rightarrow> string \<Rightarrow> string \<Rightarrow> OllamaConfig \<Rightarrow> int \<Rightarrow> real \<Rightarrow>
   int \<Rightarrow> string option \<Rightarrow> OllamaConfig list \<Rightarrow> loop_result \<times> OllamaConfig list" where
  "for_attempts http key text prompt cfg retries backoff_s attempt last_err sent =
     (if attempt < retries + 1
      then (case try_block http (length sent) text prompt cfg retries backoff_s attempt of
              TryReturn out \<Rightarrow> (Return (key, out, None, False), sent @ [cfg])
            | TryContinue last_err' \<Rightarrow>
                for_attempts http key text prompt cfg retries backoff_s (attempt + 1)
                  (Some last_err') (sent @ [cfg])
            | TryRaise e \<Rightarrow>
                (if attempt < retries
                 then (case time_sleep (backoff_s * (of_int attempt + 1)) of
                         Inl e' \<Rightarrow> (Raise e', sent @ [cfg])
                       | Inr _ \<Rightarrow>
                           for_attempts http key text prompt cfg retries backoff_s (attempt + 1)
                             (Some (str_of e)) (sent @ [cfg]))
                 else for_attempts http key text prompt cfg retries backoff_s (attempt + 1)
                        (Some (str_of e)) (sent @ [cfg])))
      else (Exhausted last_err, sent))"
  by pat_completeness auto
termination
  by (relation "measure (\<lambda>(http, key, text, prompt, cfg, retries, backoff_s, attempt, last_err, sent).
        nat (retries + 1 - attempt))") auto

definition translate_one ::
  "backend \<Rightarrow> string \<Rightarrow> string \<Rightarrow> string \<Rightarrow> string \<Rightarrow> OllamaConfig \<Rightarrow> int \<Rightarrow> real \<Rightarrow>
   OllamaConfig option \<Rightarrow> (error + outcome) \<times> OllamaConfig list" where
  "translate_one http key text target_lang target_code cfg retries backoff_s fallback_cfg =
     (let placeholder_names = extract_placeholder_names text;
          text_has_icu = has_icu_block text;
          prompt = build_prompt text target_lang target_code placeholder_names text_has_icu
      in case for_attempts http key text prompt cfg retries backoff_s 0 None [] of
           (Return r, sent) \<Rightarrow> (Inr r, sent)
         | (Raise e, sent) \<Rightarrow> (Inl e, sent)
         | (Exhausted last_err, sent) \<Rightarrow>
             (case fallback_cfg of
                Some fcfg \<Rightarrow>
                  (let fallback_prompt =
                         build_prompt text target_lang target_code placeholder_names text_has_icu
                   in case ollama_generate http (length sent) fcfg fallback_prompt of
                        Inr fallback_out \<Rightarrow>
                          (if fst (validate_preserved_tokens text fallback_out)
                           then (Inr (key, fallback_out, None, True), sent @ [fcfg])
                           else (Inr (key, text, last_err, False), sent @ [fcfg]))
                      | Inl _ \<Rightarrow> (Inr (key, text, last_err, False), sent @ [fcfg]))
              | None \<Rightarrow> (Inr (key, text, last_err, False), sent)))"

section \<open>Diff engine\<close>

definition startswith :: "string \<Rightarrow> string \<Rightarrow> bool" where
  "startswith s p = (take (length p) s = p)"

definition SKIP_KEYS :: "string set" where
  "SKIP_KEYS = {''appTitle''}"

definition is_translatable_entry :: "string \<Rightarrow> json \<Rightarrow> bool" where
  "is_translatable_entry key v =
     (if key = ''@@locale'' \<or> startswith key ''@'' \<or> key \<in> SKIP_KEYS then False
      else (case v of JString t \<Rightarrow> strip t \<noteq> [] | _ \<Rightarrow> False))"

text \<open>The loop of \<open>find_missing_keys\<close> over the keys of the source, in their order.\<close>

fun missing_loop :: "string list \<Rightarrow> doc \<Rightarrow> string list \<Rightarrow> string list" where
  "missing_loop [] target_data missing = missing"
| "missing_loop (key # keys) target_data missing =
     (if key = ''@@locale'' \<or> startswith key ''@''
      then missing_loop keys target_data missing
      else if \<not> dict_in key target_data \<or>
              (case dict_get target_data key of JString t \<Rightarrow> strip t = [] | _ \<Rightarrow> False)
           then missing_loop keys target_data (missing @ [key])
           else missing_loop keys target_data missing)"

definition find_missing_keys :: "doc \<Rightarrow> doc \<Rightarrow> string list" where
  "find_missing_keys source_data target_data = missing_loop (map fst source_data) target_data []"

section \<open>Merge engine and scheduler\<close>

text \<open>
  \<open>translate_locale\<close> works on \<open>dict\<close> objects that its caller owns, so the model has a
  store: a \<open>dict\<close> is a reference into the heap, \<open>dict(d)\<close> allocates, and
  \<open>d[key] = value\<close> updates the heap at the reference of \<open>d\<close>. The files that the run
  writes are part of the state as well. What the run prints is not modelled, and neither
  is the clock that the progress lines read.
\<close>

record state =
  heap :: "nat \<Rightarrow> doc"
  next_ref :: nat
  files :: "string \<Rightarrow> doc option"

definition new_dict :: "doc \<Rightarrow> state \<Rightarrow> nat \<times> state" where
  "new_dict d st =
     (next_ref st, st\<lparr>heap := (heap st)(next_ref st := d), next_ref := Suc (next_ref st)\<rparr>)"

definition setitem :: "nat \<Rightarrow> string \<Rightarrow> json \<Rightarrow> state \<Rightarrow> state" where
  "setitem d key v st = st\<lparr>heap := (heap st)(d := dict_set (heap st d) key v)\<rparr>"

text \<open>The command-line arguments that \<open>translate_locale\<close> reads.\<close>

record Args =
  args_host :: string
  args_model :: string
  args_timeout :: real
  args_temperature :: real
  args_fallback_model :: "string option"
  args_concurrency :: int
  args_retries :: int
  args_backoff :: real
  args_dry_run :: bool
  args_progress_every :: int

text \<open>
  What the run does not decide: the backend as each job sees it, the order in which the
  jobs of the pool complete, and whether the output file can be written.
\<close>

record env =
  job_backend :: "string \<Rightarrow> backend"
  completion :: "nat list"
  open_error :: "string \<Rightarrow> error option"

text \<open>
  \<open>as_completed\<close> yields every future once, in an order that the pool decides: each
  number of \<open>completion\<close> picks the next one among those not yet yielded.
\<close>

function as_completed :: "nat list \<Rightarrow> 'a list \<Rightarrow> 'a list" where
  "as_completed cs xs =
     (if xs = [] then []
      else (let i = (case cs of [] \<Rightarrow> 0 | c # _ \<Rightarrow> c mod length xs)
            in (xs ! i) # as_completed (tl cs) (take i xs @ drop (Suc i) xs)))"
  by pat_completeness auto
termination
proof (relation "measure (\<lambda>(cs, xs). length xs)")
  fix cs :: "nat list" and xs :: "'a list" and i
  assume ne: "xs \<noteq> []" and i: "i = (case cs of [] \<Rightarrow> 0 | c # _ \<Rightarrow> c mod length xs)"
  have "i < length xs"
    using ne i by (cases cs) simp_all
  then show "((tl cs, take i xs @ drop (Suc i) xs), (cs, xs)) \<in> measure (\<lambda>(cs, xs). length xs)"
    by simp
qed simp

text \<open>Lines 330 to 333: the metadata of the missing keys is copied from the source.\<close>

fun copy_metadata :: "nat \<Rightarrow> nat \<Rightarrow> string list \<Rightarrow> state \<Rightarrow> state" where
  "copy_metadata source_data out_data [] st = st"
| "copy_metadata source_data out_data (key # keys) st =
     (let meta_key = ''@'' @ key
      in copy_metadata source_data out_data keys
           (if dict_in meta_key (heap st source_data)
            then setitem out_data meta_key (dict_get (heap st source_data) meta_key) st
            else st))"

text \<open>
  Lines 338 to 345. The table \<open>MANUAL_TRANSLATIONS\<close> holds texts in many scripts; it is
  a parameter here.
\<close>

fun manual_loop ::
  "(string \<times> (string \<times> string) list) list \<Rightarrow> nat \<Rightarrow> string \<Rightarrow> (string \<times> string) list \<Rightarrow>
   state \<times> int \<times> (string \<times> string) list \<Rightarrow> state \<times> int \<times> (string \<times> string) list" where
  "manual_loop MANUAL_TRANSLATIONS out_data target_locale [] acc = acc"
| "manual_loop MANUAL_TRANSLATIONS out_data target_locale ((k, v) # items)
     (st, manual_count, items_to_translate) =
     (case (case map_of MANUAL_TRANSLATIONS k of
              None \<Rightarrow> None | Some by_locale \<Rightarrow> map_of by_locale target_locale) of
        Some t \<Rightarrow>
          manual_loop MANUAL_TRANSLATIONS out_data target_locale items
            (setitem out_data k (JString t) st, manual_count + 1, items_to_translate)
      | None \<Rightarrow>
          manual_loop MANUAL_TRANSLATIONS out_data target_locale items
            (st, manual_count, items_to_translate @ [(k, v)]))"

record progress =
  failures :: "(string \<times> string) list"
  translated_ok :: int
  fallback_used :: int
  completed :: int

text \<open>
  Lines 381 to 401: the results in completion order. \<open>fut.result()\<close> raises what the job
  raised, and \<open>completed % args.progress_every\<close> raises when the divisor is 0.
\<close>

fun collect ::
  "nat \<Rightarrow> int \<Rightarrow> (error + outcome) list \<Rightarrow> state \<times> progress \<Rightarrow> error option \<times> state \<times> progress" where
  "collect out_data progress_every [] (st, pr) = (None, st, pr)"
| "collect out_data progress_every (Inl e # futs) (st, pr) = (Some e, st, pr)"
| "collect out_data progress_every (Inr (k, translated, err, used_fallback) # futs) (st, pr) =
     (let st = setitem out_data k (JString translated) st;
          pr = pr\<lparr>completed := completed pr + 1\<rparr>;
          pr = (if err \<noteq> None \<and> err \<noteq> Some []
                then pr\<lparr>failures := failures pr @ [(k, case err of None \<Rightarrow> [] | Some m \<Rightarrow> m)]\<rparr>
                else (let pr = pr\<lparr>translated_ok := translated_ok pr + 1\<rparr>
                      in if used_fallback then pr\<lparr>fallback_used := fallback_used pr + 1\<rparr> else pr))
      in if progress_every = 0 then (Some ZeroDivisionError, st, pr)
         else collect out_data progress_every futs (st, pr))"

text \<open>
  Lines 323 to 335: the items to translate, and in missing-only mode the metadata of the
  missing keys copied into the output.
\<close>

definition select_items ::
  "nat \<Rightarrow> nat \<Rightarrow> string list option \<Rightarrow> state \<Rightarrow> (string \<times> string) list \<times> state" where
  "select_items source_data out_data missing_keys st =
     (case missing_keys of
        Some keys \<Rightarrow>
          (List.map_filter
             (\<lambda>k. if is_translatable_entry k (dict_get (heap st source_data) k)
                  then (case dict_get (heap st source_data) k of
                          JString v \<Rightarrow> Some (k, v) | _ \<Rightarrow> None)
                  else None) keys,
           copy_metadata source_data out_data keys st)
      | None \<Rightarrow>
          (List.map_filter
             (\<lambda>(k, v). if is_translatable_entry k v
                       then (case v of JString t \<Rightarrow> Some (k, t) | _ \<Rightarrow> None)
                       else None) (heap st source_data),
           st))"

text \<open>
  Lines 350 to 427: the jobs run in the pool, their results are merged as they complete,
  and the output is written unless the run is a dry run.
\<close>

definition run_jobs ::
  "env \<Rightarrow> nat \<Rightarrow> string \<Rightarrow> string \<Rightarrow> string \<Rightarrow> Args \<Rightarrow> OllamaConfig \<Rightarrow> OllamaConfig option \<Rightarrow>
   int \<Rightarrow> (string \<times> string) list \<Rightarrow> state \<Rightarrow> (error + int) \<times> state" where
  "run_jobs environment out_data target_lang target_code out_path args cfg fallback_cfg
     manual_count items_to_translate st =
     (let total = int (length items_to_translate)
      in if total = 0 then (Inr manual_count, st)
         else
           (let futures =
                  map (\<lambda>(k, v). fst (translate_one (job_backend environment k) k v
                                      target_lang target_code cfg
                                      (args_retries args) (args_backoff args) fallback_cfg))
                      (as_completed (completion environment) items_to_translate);
                pr = \<lparr>failures = [], translated_ok = manual_count, fallback_used = 0, completed = 0\<rparr>
            in case collect out_data (args_progress_every args) futures (st, pr) of
                 (Some e, st, pr) \<Rightarrow> (Inl e, st)
               | (None, st, pr) \<Rightarrow>
                   if args_dry_run args then (Inr (translated_ok pr), st)
                   else (case open_error environment out_path of
                           Some e \<Rightarrow> (Inr (- 1), st)
                         | None \<Rightarrow>
                             (Inr (translated_ok pr),
                              st\<lparr>files := (files st)(out_path \<mapsto> heap st out_data)\<rparr>))))"

definition translate_locale ::
  "(string \<times> (string \<times> string) list) list \<Rightarrow> env \<Rightarrow>
   nat \<Rightarrow> nat \<Rightarrow> string \<Rightarrow> string \<Rightarrow> string \<Rightarrow> string \<Rightarrow> Args \<Rightarrow> string list option \<Rightarrow>
   state \<Rightarrow> (error + int) \<times> state" where
  "translate_locale MANUAL_TRANSLATIONS environment
     source_data target_data target_locale target_lang target_code out_path args missing_keys st =
     (let cfg = \<lparr>host = args_host args, model = args_model args,
                 timeout_s = args_timeout args, temperature = args_temperature args\<rparr>;
          fallback_cfg =
            (case args_fallback_model args of
               None \<Rightarrow> None
             | Some m \<Rightarrow>
                 if m = [] then None
                 else Some \<lparr>host = args_host args, model = m,
                            timeout_s = args_timeout args, temperature = args_temperature args\<rparr>);
          (out_data, st) =
            new_dict (if heap st target_data \<noteq> [] then heap st target_data
                      else heap st source_data) st;
          st = setitem out_data ''@@locale'' (JString target_locale) st;
          (items, st) = select_items source_data out_data missing_keys st;
          (st, manual_count, items_to_translate) =
            manual_loop MANUAL_TRANSLATIONS out_data target_locale items (st, 0, [])
      in run_jobs environment out_data target_lang target_code out_path args cfg fallback_cfg
           manual_count items_to_translate st)"

section \<open>Vocabulary of the properties\<close>

text \<open>A pattern without the anchor \<^verbatim>\<open>$\<close>: its matches do not depend on what follows them.\<close>

fun no_eos :: "rx \<Rightarrow> bool" where
  "no_eos Eos = False"
| "no_eos (Seq a b) = (no_eos a \<and> no_eos b)"
| "no_eos (Alt a b) = (no_eos a \<and> no_eos b)"
| "no_eos (Grp a) = no_eos a"
| "no_eos _ = True"







definition always_replies :: "string \<Rightarrow> backend" where
  "always_replies t = (\<lambda>n url payload timeout. Inr (JObject [(''response'', JString t)]))"



text \<open>
  The words of the diff engine: a metadata key is the locale tag or starts with \<open>@\<close>; a
  value is blank when it is a string of white space only; a key is missing from a target
  when it is not a metadata key and the target has no value or a blank value for it.
\<close>

definition is_metadata_key :: "string \<Rightarrow> bool" where
  "is_metadata_key key = (key = ''@@locale'' \<or> startswith key ''@'')"

definition blank_string :: "json \<Rightarrow> bool" where
  "blank_string v = (case v of JString t \<Rightarrow> strip t = [] | _ \<Rightarrow> False)"

definition is_missing :: "doc \<Rightarrow> string \<Rightarrow> bool" where
  "is_missing target_data key =
     (if is_metadata_key key then False
      else (case map_of target_data key of None \<Rightarrow> True | Some v \<Rightarrow> blank_string v))"

definition example_source :: doc where
  "example_source =
     [(''@@locale'', JString ''en''),
      (''appTitle'', JString ''MeshCore''),
      (''greeting'', JString ''Hello {name}!''),
      (''@greeting'', JObject [(''description'', JString ''Greets the user'')]),
      (''farewell'', JString ''Bye'')]"

text \<open>Two states that differ at most in the object \<open>d\<close> (and in the files written).\<close>

definition same_except :: "nat \<Rightarrow> state \<Rightarrow> state \<Rightarrow> bool" where
  "same_except d st st' = (next_ref st' = next_ref st \<and> (\<forall>a. a \<noteq> d \<longrightarrow> heap st' a = heap st a))"

text \<open>A run for the examples: the source document is object 0, the target is empty.\<close>

definition example_manual :: "(string \<times> (string \<times> string) list) list" where
  "example_manual =
     [(''repeater_daysHoursMinsSecs'',
       [(''nl'', ''{days} dagen {hours}u {minutes}m {seconds}s''),
        (''sv'', ''{days} dagar {hours}t {minutes}m {seconds}s'')])]"

definition example_args :: Args where
  "example_args =
     \<lparr>args_host = ''http://localhost:11434'', args_model = ''translategemma:latest'',
      args_timeout = 120, args_temperature = 0, args_fallback_model = None,
      args_concurrency = 4, args_retries = 2, args_backoff = 6/10,
      args_dry_run = False, args_progress_every = 1\<rparr>"

definition example_env :: env where
  "example_env =
     \<lparr>job_backend = (\<lambda>k. always_replies ''Salut {name} !''),
      completion = [1],
      open_error = (\<lambda>path. None)\<rparr>"

definition example_state :: state where
  "example_state =
     \<lparr>heap = (\<lambda>a. [])(0 := example_source, 1 := []),
      next_ref = 2,
      files = (\<lambda>path. None)\<rparr>"

text \<open>A pattern without a group leaves the text of group 1 as it is.\<close>

fun no_grp :: "rx \<Rightarrow> bool" where
  "no_grp (Grp a) = False"
| "no_grp (Seq a b) = (no_grp a \<and> no_grp b)"
| "no_grp (Alt a b) = (no_grp a \<and> no_grp b)"
| "no_grp _ = True"

text \<open>
  The words of the validator, without a pattern: the text \<open>u\<close> begins with the token of
  \<open>name\<close> when it begins with \<open>{name\<close> followed by \<open>}\<close>, or by white space (maybe none) and
  a comma; a candidate has the token when some suffix of it begins with it. \<open>contains\<close>
  is plain containment of one text in another.
\<close>

definition token_at :: "string \<Rightarrow> string \<Rightarrow> bool" where
  "token_at name u =
     (startswith u (''{'' @ name) \<and>
      (let t = drop (Suc (length name)) u
       in startswith t ''}'' \<or> startswith (dropWhile is_space t) '',''))"

definition has_token :: "string \<Rightarrow> string \<Rightarrow> bool" where
  "has_token name c = list_ex (\<lambda>i. token_at name (drop i c)) [0..<Suc (length c)]"

definition contains :: "string \<Rightarrow> string \<Rightarrow> bool" where
  "contains c w = list_ex (\<lambda>i. startswith (drop i c) w) [0..<Suc (length c)]"

text \<open>The two tests that make the second loop of the extractor skip a match.\<close>

definition simple_skipped :: "string \<Rightarrow> rmatch \<Rightarrow> bool" where
  "simple_skipped s m =
     (re_match icu_head_re (drop (m_start m) s) \<or> re_search case_label_re (take (m_start m) s))"

text \<open>
  The case labels that the extractor knows, without a pattern: the text before a brace
  ends in a case label when, white space at its end removed, it ends in \<open>=\<close> and digits or,
  whatever the case of the letters, in one of the six plural keywords.
\<close>

definition plural_keywords :: "string list" where
  "plural_keywords = [''zero'', ''one'', ''two'', ''few'', ''many'', ''other'']"

definition rstrip :: "string \<Rightarrow> string" where
  "rstrip s = rev (dropWhile is_space (rev s))"

definition endswith_ci :: "string \<Rightarrow> string \<Rightarrow> bool" where
  "endswith_ci t kw =
     (length kw \<le> length t \<and> map lower_char (drop (length t - length kw) t) = kw)"

definition endswith_explicit :: "string \<Rightarrow> bool" where
  "endswith_explicit t =
     (let ds = takeWhile is_digit (rev t)
      in ds \<noteq> [] \<and> startswith (drop (length ds) (rev t)) ''='')"

definition after_case_label :: "string \<Rightarrow> bool" where
  "after_case_label before =
     (let t = rstrip before
      in endswith_explicit t \<or> list_ex (endswith_ci t) plural_keywords)"

text \<open>The labels as a set of texts, the label part of the pattern of line 143, and what it
  means for a pattern to recognise a set of texts.\<close>

definition is_label :: "string \<Rightarrow> bool" where
  "is_label lab =
     ((\<exists>ds. lab = CHR ''='' # ds \<and> ds \<noteq> [] \<and> list_all is_digit ds) \<or>
      map lower_char lab \<in> set plural_keywords)"

definition label_re :: rx where
  "label_re = Alt (Seq (Chr CHR ''='') (Plus is_digit))
          (Alt (litsI ''zero'') (Alt (litsI ''one'') (Alt (litsI ''two'')
          (Alt (litsI ''few'') (Alt (litsI ''many'') (litsI ''other''))))))"

definition recognises :: "rx \<Rightarrow> (string \<Rightarrow> bool) \<Rightarrow> bool" where
  "recognises a P =
     (\<forall>g u g' r. (g', r) \<in> set (rxm a (g, u)) \<longleftrightarrow> g' = g \<and> (\<exists>lab. u = lab @ r \<and> P lab))"

text \<open>
  The two ways in which a name can occur in a text as a token of its own: as the argument
  of a construct, \<open>{name\<close> followed by white space (maybe none) and a comma, and as
  \<open>{name}\<close> at a place that does not follow a case label.
\<close>

definition has_icu_argument :: "string \<Rightarrow> string \<Rightarrow> bool" where
  "has_icu_argument name s =
     list_ex (\<lambda>pos. startswith (drop pos s) (''{'' @ name) \<and>
                    startswith (dropWhile is_space (drop (Suc (length name)) (drop pos s))) '','')
       [0..<Suc (length s)]"

definition has_free_placeholder :: "string \<Rightarrow> string \<Rightarrow> bool" where
  "has_free_placeholder name s =
     list_ex (\<lambda>pos. startswith (drop pos s) (''{'' @ name @ ''}'') \<and> \<not> after_case_label (take pos s))
       [0..<Suc (length s)]"

section \<open>The matcher\<close>

lemma greedy_mem: "r \<in> set (greedy p s) \<longleftrightarrow> (\<exists>u. s = u @ r \<and> list_all p u)"
proof (induction s)
  case Nil
  then show ?case by auto
next
  case (Cons c cs)
  show ?case
  proof (cases "p c")
    case True
    have "(\<exists>u. c # cs = u @ r \<and> list_all p u) \<longleftrightarrow> r = c # cs \<or> (\<exists>u. cs = u @ r \<and> list_all p u)"
      using True by (auto simp: Cons_eq_append_conv)
    then show ?thesis using True Cons.IH by auto
  next
    case False
    have "(\<exists>u. c # cs = u @ r \<and> list_all p u) \<longleftrightarrow> r = c # cs"
      using False by (auto simp: Cons_eq_append_conv)
    then show ?thesis using False by auto
  qed
qed

lemma rxm_Chr_mem: "(g', r) \<in> set (rxm (Chr c) (g, s)) \<longleftrightarrow> g' = g \<and> s = c # r"
  by (auto split: list.splits)

lemma rxm_Star_mem:
  "(g', r) \<in> set (rxm (Star p) (g, s)) \<longleftrightarrow> g' = g \<and> (\<exists>u. s = u @ r \<and> list_all p u)"
  by (auto simp: greedy_mem)

lemma rxm_Plus_mem:
  "(g', r) \<in> set (rxm (Plus p) (g, s)) \<longleftrightarrow> g' = g \<and> (\<exists>u. u \<noteq> [] \<and> s = u @ r \<and> list_all p u)"
proof (cases s)
  case Nil
  then show ?thesis by auto
next
  case (Cons x xs)
  show ?thesis
  proof (cases "p x")
    case True
    have "(\<exists>u. u \<noteq> [] \<and> x # xs = u @ r \<and> list_all p u) \<longleftrightarrow> (\<exists>v. xs = v @ r \<and> list_all p v)"
    proof
      assume "\<exists>u. u \<noteq> [] \<and> x # xs = u @ r \<and> list_all p u"
      then obtain u where u: "u \<noteq> []" "x # xs = u @ r" "list_all p u" by blast
      then obtain v where "u = x # v" by (cases u) auto
      with u show "\<exists>v. xs = v @ r \<and> list_all p v" by auto
    next
      assume "\<exists>v. xs = v @ r \<and> list_all p v"
      then obtain v where "xs = v @ r" "list_all p v" by blast
      then have "x # v \<noteq> [] \<and> x # xs = (x # v) @ r \<and> list_all p (x # v)" using True by simp
      then show "\<exists>u. u \<noteq> [] \<and> x # xs = u @ r \<and> list_all p u" by blast
    qed
    then show ?thesis using Cons True by (auto simp: greedy_mem)
  next
    case False
    have "\<not> (\<exists>u. u \<noteq> [] \<and> x # xs = u @ r \<and> list_all p u)"
    proof
      assume "\<exists>u. u \<noteq> [] \<and> x # xs = u @ r \<and> list_all p u"
      then obtain u where u: "u \<noteq> []" "x # xs = u @ r" "list_all p u" by blast
      then obtain v where "u = x # v" by (cases u) auto
      with u False show False by simp
    qed
    then show ?thesis using Cons False by auto
  qed
qed

lemma rxm_Seq_mem:
  "(g', r) \<in> set (rxm (Seq a b) (g, s)) \<longleftrightarrow>
   (\<exists>g1 r1. (g1, r1) \<in> set (rxm a (g, s)) \<and> (g', r) \<in> set (rxm b (g1, r1)))"
  by auto

lemma rxm_Grp_mem:
  "(g', r) \<in> set (rxm (Grp a) (g, s)) \<longleftrightarrow>
   (\<exists>g1. (g1, r) \<in> set (rxm a (g, s)) \<and> g' = take (length s - length r) s)"
proof
  assume "(g', r) \<in> set (rxm (Grp a) (g, s))"
  then show "\<exists>g1. (g1, r) \<in> set (rxm a (g, s)) \<and> g' = take (length s - length r) s"
    by auto
next
  assume "\<exists>g1. (g1, r) \<in> set (rxm a (g, s)) \<and> g' = take (length s - length r) s"
  then obtain g1 where "(g1, r) \<in> set (rxm a (g, s))" "g' = take (length s - length r) s"
    by blast
  then show "(g', r) \<in> set (rxm (Grp a) (g, s))"
    by (auto simp: image_iff intro!: bexI[of _ "(g1, r)"])
qed

lemma rxm_lits_mem: "(g', r) \<in> set (rxm (lits w) (g, s)) \<longleftrightarrow> g' = g \<and> s = w @ r"
  by (induction w arbitrary: s) (auto split: list.splits)

lemma rxm_suffix: "(g', r) \<in> set (rxm a (g, s)) \<Longrightarrow> \<exists>u. s = u @ r"
proof (induction a arbitrary: g s g' r)
  case (Seq a b)
  then obtain g1 r1 where 1: "(g1, r1) \<in> set (rxm a (g, s))" and 2: "(g', r) \<in> set (rxm b (g1, r1))"
    by auto
  from Seq.IH(1)[OF 1] Seq.IH(2)[OF 2] show ?case by auto
next
  case (Star p)
  then show ?case by (auto simp: greedy_mem)
next
  case (Plus p)
  then show ?case using rxm_Plus_mem by blast
qed (auto split: list.splits if_splits)


lemma rxm_extend:
  "(g', r) \<in> set (rxm a (g, s)) \<Longrightarrow> no_eos a \<Longrightarrow> (g', r @ t) \<in> set (rxm a (g, s @ t))"
proof (induction a arbitrary: g s g' r)
  case (Seq a b)
  then obtain g1 r1 where 1: "(g1, r1) \<in> set (rxm a (g, s))" and 2: "(g', r) \<in> set (rxm b (g1, r1))"
    by auto
  from Seq.IH(1)[OF 1] Seq.IH(2)[OF 2] Seq.prems(2) show ?case by auto
next
  case (Star p)
  then show ?case by (auto simp: greedy_mem)
next
  case (Plus p)
  then show ?case unfolding rxm_Plus_mem by auto
next
  case (Grp a)
  then obtain g1 where 1: "(g1, r) \<in> set (rxm a (g, s))" and 2: "g' = take (length s - length r) s"
    unfolding rxm_Grp_mem by blast
  from rxm_suffix[OF 1] obtain u where "s = u @ r" by blast
  then have "g' = take (length (s @ t) - length (r @ t)) (s @ t)" using 2 by simp
  moreover have "(g1, r @ t) \<in> set (rxm a (g, s @ t))" using Grp.IH[OF 1] Grp.prems(2) by simp
  ultimately show ?case unfolding rxm_Grp_mem by blast
qed (auto split: list.splits if_splits)

lemma re_search_iff: "re_search r s \<longleftrightarrow> (\<exists>i\<le>length s. rxm r ([], drop i s) \<noteq> [])"
  by (auto simp: re_search_def list_ex_iff less_Suc_eq_le simp del: upt_Suc)

lemma re_search_extend: 
  assumes "re_search r c" "no_eos r" shows "re_search r (c @ t)"
proof -
  from assms obtain i where i: "i \<le> length c" "rxm r ([], drop i c) \<noteq> []"
    unfolding re_search_iff by blast
  then obtain g' rest where "(g', rest) \<in> set (rxm r ([], drop i c))"
    by (cases "rxm r ([], drop i c)") auto
  from rxm_extend[OF this assms(2), of t] i(1)
  have "(g', rest @ t) \<in> set (rxm r ([], drop i (c @ t)))" by simp
  then have "rxm r ([], drop i (c @ t)) \<noteq> []" by auto
  with i(1) show ?thesis unfolding re_search_iff by (intro exI[of _ i]) simp
qed

section \<open>The validator\<close>

lemma no_eos_lits: "no_eos (lits w)"
  by (induction w) auto

lemma no_eos_litsI: "no_eos (litsI w)"
  by (induction w) auto

lemma no_eos_name_pattern: "no_eos (name_pattern n)"
  by (simp add: name_pattern_def no_eos_lits)

lemma no_eos_ICU_VAR_RE: "no_eos ICU_VAR_RE"
  by (simp add: ICU_VAR_RE_def icu_keyword_def no_eos_litsI)

lemma check_names_passes:
  "check_names ns out = (True, None) \<longleftrightarrow> (\<forall>n\<in>set ns. re_search (name_pattern n) out)"
  by (induction ns) auto

lemma check_names_fst:
  "fst (check_names ns out) \<longleftrightarrow> (\<forall>n\<in>set ns. re_search (name_pattern n) out)"
  by (induction ns) auto

lemma validate_passes_iff:
  "validate_preserved_tokens src out = (True, None) \<longleftrightarrow>
     (\<forall>n\<in>set (extract_placeholder_names src). re_search (name_pattern n) out) \<and>
     (has_icu_block src \<longrightarrow> has_icu_block out)"
proof -
  obtain b why where c: "check_names (extract_placeholder_names src) out = (b, why)"
    by (cases "check_names (extract_placeholder_names src) out")
  show ?thesis
  proof (cases b)
    case True
    with c have "fst (check_names (extract_placeholder_names src) out)" by simp
    then have "\<forall>n\<in>set (extract_placeholder_names src). re_search (name_pattern n) out"
      by (simp add: check_names_fst)
    with c True show ?thesis
      by (auto simp: validate_preserved_tokens_def)
  next
    case False
    with c have "\<not> fst (check_names (extract_placeholder_names src) out)" by simp
    then have "\<not> (\<forall>n\<in>set (extract_placeholder_names src). re_search (name_pattern n) out)"
      by (simp add: check_names_fst)
    with c False show ?thesis
      by (auto simp: validate_preserved_tokens_def)
  qed
qed



text \<open>
  Claim C9. A source text with no placeholder name and no ICU block puts no constraint on
  the candidate: every candidate passes, the empty text too.
\<close>

theorem validate_unconstrained_without_tokens:
  "extract_placeholder_names s = [] \<Longrightarrow> \<not> has_icu_block s \<Longrightarrow>
   validate_preserved_tokens s c = (True, None)"
  by (simp add: validate_passes_iff)

theorem validate_unconstrained_without_tokens_witness:
  "extract_placeholder_names ''Hello'' = [] \<and> \<not> has_icu_block ''Hello'' \<and>
   validate_preserved_tokens ''Hello'' [] = (True, None)"
proof -
  have h1: "extract_placeholder_names ''Hello'' = []" by code_simp
  have h2: "\<not> has_icu_block ''Hello''" by code_simp
  from validate_unconstrained_without_tokens [OF h1 h2, of "[]"] h1 h2 show ?thesis by simp
qed

text \<open>
  Claim C10. Validation is monotone under extension of the candidate: a candidate that
  passes still passes with any text appended, so with placeholders that the source does
  not have.
\<close>

theorem validate_monotone_extension:
  "validate_preserved_tokens s c = (True, None) \<Longrightarrow>
   validate_preserved_tokens s (c @ t) = (True, None)"
  unfolding validate_passes_iff has_icu_block_def
  using re_search_extend[OF _ no_eos_name_pattern] re_search_extend[OF _ no_eos_ICU_VAR_RE]
  by blast

theorem validate_monotone_extension_witness:
  "validate_preserved_tokens ''Hello {name}!'' ''Bonjour {name} !'' = (True, None) \<and>
   validate_preserved_tokens ''Hello {name}!'' (''Bonjour {name} !'' @ '' {extra}'') = (True, None)"
proof -
  have h: "validate_preserved_tokens ''Hello {name}!'' ''Bonjour {name} !'' = (True, None)"
    by code_simp
  from validate_monotone_extension [OF h, of "'' {extra}''"] h show ?thesis by simp
qed

section \<open>The job runner\<close>

declare for_attempts.simps [simp del]

declare finditer_from.simps [simp del]

declare as_completed.simps [simp del]


















section \<open>The diff engine\<close>

lemma missing_loop_filter:
  "missing_loop keys target_data missing = missing @ filter (is_missing target_data) keys"
  by (induction keys arbitrary: missing)
     (auto simp: is_missing_def is_metadata_key_def blank_string_def dict_in_def dict_get_def
           split: option.splits)

lemma find_missing_keys_filter:
  "find_missing_keys source_data target_data = filter (is_missing target_data) (map fst source_data)"
  by (simp add: find_missing_keys_def missing_loop_filter)

lemma translatable_not_metadata: "is_translatable_entry key v \<Longrightarrow> \<not> is_metadata_key key"
  by (auto simp: is_translatable_entry_def is_metadata_key_def split: if_splits)

lemma map_of_fst_mem: "k \<in> fst ` set d \<Longrightarrow> \<exists>v. map_of d k = Some v \<and> v \<in> snd ` set d"
  by (induction d) (auto simp: image_iff)

lemma find_missing_keys_empty_target:
  "find_missing_keys source_data [] = filter (\<lambda>k. \<not> is_metadata_key k) (map fst source_data)"
  by (simp add: find_missing_keys_filter is_missing_def cong: filter_cong)

lemma find_missing_keys_same:
  "find_missing_keys source_data source_data =
     filter (\<lambda>k. \<not> is_metadata_key k \<and> blank_string (dict_get source_data k)) (map fst source_data)"
  unfolding find_missing_keys_filter
proof (rule filter_cong[OF refl])
  fix k assume "k \<in> set (map fst source_data)"
  then have "k \<in> fst ` set source_data" by simp
  from map_of_fst_mem[OF this] obtain v where "map_of source_data k = Some v" by blast
  then show "is_missing source_data k = (\<not> is_metadata_key k \<and> blank_string (dict_get source_data k))"
    by (simp add: is_missing_def dict_get_def)
qed

text \<open>
  Claim C7, as the code has it. \<open>find_missing_keys\<close> returns, in the order of the source,
  exactly the keys of the source that are missing from the target. For an empty target
  these are all keys that are not metadata keys, so every translatable key is among them.
  For a target identical to the source these are the keys with a blank value, so the
  result is empty when the source has no blank value.
\<close>

theorem find_missing_keys_exact:
  "find_missing_keys source_data target_data = filter (is_missing target_data) (map fst source_data) \<and>
   find_missing_keys source_data [] = filter (\<lambda>k. \<not> is_metadata_key k) (map fst source_data) \<and>
   (\<forall>(k, v) \<in> set source_data. is_translatable_entry k v \<longrightarrow> k \<in> set (find_missing_keys source_data [])) \<and>
   find_missing_keys source_data source_data =
     filter (\<lambda>k. \<not> is_metadata_key k \<and> blank_string (dict_get source_data k)) (map fst source_data) \<and>
   ((\<forall>v \<in> snd ` set source_data. \<not> blank_string v) \<longrightarrow> find_missing_keys source_data source_data = [])"
proof (intro conjI)
  show "\<forall>(k, v) \<in> set source_data. is_translatable_entry k v \<longrightarrow> k \<in> set (find_missing_keys source_data [])"
    by (auto simp: find_missing_keys_empty_target dest: translatable_not_metadata intro: rev_image_eqI)
  show "(\<forall>v \<in> snd ` set source_data. \<not> blank_string v) \<longrightarrow> find_missing_keys source_data source_data = []"
  proof
    assume nb: "\<forall>v \<in> snd ` set source_data. \<not> blank_string v"
    have "\<not> blank_string (dict_get source_data k)" if "k \<in> set (map fst source_data)" for k
    proof -
      from that have "k \<in> fst ` set source_data" by simp
      from map_of_fst_mem[OF this] obtain v where "map_of source_data k = Some v" "v \<in> snd ` set source_data"
        by blast
      with nb show ?thesis by (auto simp: dict_get_def)
    qed
    then show "find_missing_keys source_data source_data = []"
      by (simp add: find_missing_keys_same filter_empty_conv)
  qed
qed (rule find_missing_keys_filter find_missing_keys_empty_target find_missing_keys_same)+

theorem find_missing_keys_exact_witness:
  "find_missing_keys example_source [] = [''appTitle'', ''greeting'', ''farewell''] \<and>
   is_translatable_entry ''greeting'' (JString ''Hello {name}!'') \<and>
   ''greeting'' \<in> set (find_missing_keys example_source []) \<and>
   \<not> blank_string (JString ''en'') \<and>
   find_missing_keys example_source example_source = []"
proof -
  have a: "filter (\<lambda>k. \<not> is_metadata_key k) (map fst example_source) = [''appTitle'', ''greeting'', ''farewell'']"
    by code_simp
  have b: "is_translatable_entry ''greeting'' (JString ''Hello {name}!'')" by code_simp
  have c: "\<forall>v \<in> snd ` set example_source. \<not> blank_string v" 
    unfolding example_source_def by (simp add: blank_string_def strip_def is_space_def code_def)
  have d: "(''greeting'', JString ''Hello {name}!'') \<in> set example_source"
    by (simp add: example_source_def)
  have e: "\<not> blank_string (JString ''en'')" by code_simp
  from find_missing_keys_exact [of example_source "[]"] a b c d e show ?thesis by auto
qed

text \<open>
  The claim as stated fails for a target identical to the source: a key whose value is
  blank in the source is blank in the target too, and is reported.
\<close>

theorem blank_value_reported_missing:
  "find_missing_keys [(''note'', JString '''')] [(''note'', JString '''')] = [''note'']"
  by code_simp

section \<open>The merge engine\<close>

lemma same_except_refl: "same_except d st st"
  by (simp add: same_except_def)

lemma same_except_trans: "same_except d st st' \<Longrightarrow> same_except d st' st'' \<Longrightarrow> same_except d st st''"
  by (simp add: same_except_def)

lemma same_except_setitem: "same_except d st (setitem d key v st)"
  by (simp add: same_except_def setitem_def)

lemma same_except_copy_metadata: "same_except d st (copy_metadata source_data d keys st)"
proof (induction keys arbitrary: st)
  case Nil
  then show ?case by (simp add: same_except_refl)
next
  case (Cons key keys)
  show ?case
    using Cons.IH by (auto simp: Let_def intro: same_except_trans[OF same_except_setitem])
qed

lemma same_except_manual_loop:
  "same_except d st (fst (manual_loop M d target_locale items (st, n, todo)))"
proof (induction items arbitrary: st n todo)
  case Nil
  then show ?case by (simp add: same_except_refl)
next
  case (Cons kv items)
  obtain k v where kv: "kv = (k, v)" by (cases kv)
  show ?case
    using Cons.IH by (auto simp: kv split: option.splits intro: same_except_trans[OF same_except_setitem])
qed

lemma same_except_collect:
  "same_except d st (fst (snd (collect d progress_every futs (st, pr))))"
proof (induction futs arbitrary: st pr)
  case Nil
  then show ?case by (simp add: same_except_refl)
next
  case (Cons f futs)
  show ?case
  proof (cases f)
    case (Inl e)
    then show ?thesis by (simp add: same_except_refl)
  next
    case (Inr r)
    obtain k translated err used_fallback where r: "r = (k, translated, err, used_fallback)"
      by (cases r)
    show ?thesis
      using Cons.IH
      by (auto simp: Inr r Let_def same_except_setitem intro: same_except_trans[OF same_except_setitem])
  qed
qed


lemma manual_loop_frame:
  "manual_loop M d target_locale items (st, n, todo) = (st', n', todo') \<Longrightarrow> same_except d st st'"
  using same_except_manual_loop[of d st M target_locale items n todo] by simp

lemma collect_frame:
  "collect d progress_every futs (st, pr) = (e, st', pr') \<Longrightarrow> same_except d st st'"
  using same_except_collect[of d st progress_every futs pr] by simp

lemma same_except_heap: "same_except d st st' \<Longrightarrow> a \<noteq> d \<Longrightarrow> heap st' a = heap st a"
  by (simp add: same_except_def)

lemma same_except_select_items:
  "same_except d st (snd (select_items source_data d missing_keys st))"
  by (simp add: select_items_def same_except_refl same_except_copy_metadata split: option.splits)

lemma same_except_files: "same_except d st (st\<lparr>files := f\<rparr>)"
  by (simp add: same_except_def)

lemma same_except_run_jobs:
  "same_except d st
     (snd (run_jobs environment d target_lang target_code out_path args cfg fallback_cfg
             manual_count items_to_translate st))"
proof -
  let ?futs = "map (\<lambda>(k, v). fst (translate_one (job_backend environment k) k v
                                      target_lang target_code cfg
                                      (args_retries args) (args_backoff args) fallback_cfg))
                      (as_completed (completion environment) items_to_translate)"
  let ?pr = "\<lparr>failures = [], translated_ok = manual_count, fallback_used = 0, completed = 0\<rparr>"
  obtain e st' pr' where c: "collect d (args_progress_every args) ?futs (st, ?pr) = (e, st', pr')"
    by (cases "collect d (args_progress_every args) ?futs (st, ?pr)") auto
  have f: "same_except d st st'" by (rule collect_frame[OF c])
  have g: "same_except d st (st'\<lparr>files := x\<rparr>)" for x
    by (rule same_except_trans[OF f same_except_files])
  show ?thesis
    unfolding run_jobs_def Let_def
    by (simp add: c f g same_except_refl split: option.splits)
qed

text \<open>
  Claim C8. \<open>translate_locale\<close> does not mutate the source document: every object that
  exists when it is called, the source among them, is the same when it returns or raises,
  whatever the target, the missing keys, the backend, the completion order and the
  arguments are. The only object it writes is the one that \<open>dict(...)\<close> allocates.
\<close>

theorem translate_locale_frame:
  assumes "a < next_ref st"
  shows "heap (snd (translate_locale MANUAL_TRANSLATIONS environment source_data target_data
                      target_locale target_lang target_code out_path args missing_keys st)) a = heap st a \<and>
         next_ref (snd (translate_locale MANUAL_TRANSLATIONS environment source_data target_data
                      target_locale target_lang target_code out_path args missing_keys st)) =
           Suc (next_ref st)"
proof -
  let ?out = "next_ref st"
  let ?d0 = "if heap st target_data \<noteq> [] then heap st target_data else heap st source_data"
  define st1 where "st1 = snd (new_dict ?d0 st)"
  define st2 where "st2 = setitem ?out ''@@locale'' (JString target_locale) st1"
  define st3 where "st3 = snd (select_items source_data ?out missing_keys st2)"
  define items where "items = fst (select_items source_data ?out missing_keys st2)"
  obtain st4 manual_count todo where
    m: "manual_loop MANUAL_TRANSLATIONS ?out target_locale items (st3, 0, []) = (st4, manual_count, todo)"
    by (cases "manual_loop MANUAL_TRANSLATIONS ?out target_locale items (st3, 0, [])") auto
  define cfg where "cfg = \<lparr>host = args_host args, model = args_model args,
                 timeout_s = args_timeout args, temperature = args_temperature args\<rparr>"
  define fallback_cfg where "fallback_cfg =
            (case args_fallback_model args of
               None \<Rightarrow> None
             | Some m \<Rightarrow>
                 if m = [] then None
                 else Some \<lparr>host = args_host args, model = m,
                            timeout_s = args_timeout args, temperature = args_temperature args\<rparr>)"
  define st5 where "st5 = snd (run_jobs environment ?out target_lang target_code out_path args cfg fallback_cfg
           manual_count todo st4)"
  have eq: "snd (translate_locale MANUAL_TRANSLATIONS environment source_data target_data
                      target_locale target_lang target_code out_path args missing_keys st) = st5"
    using m
    unfolding translate_locale_def Let_def case_prod_beta
              st1_def st2_def st3_def items_def cfg_def fallback_cfg_def st5_def
    by (simp add: new_dict_def split del: if_split)
  have ne: "a \<noteq> ?out" using assms by simp
  have "heap st1 a = heap st a \<and> next_ref st1 = Suc (next_ref st)"
    using ne by (simp add: st1_def new_dict_def)
  moreover have "same_except ?out st1 st2" unfolding st2_def by (rule same_except_setitem)
  moreover have "same_except ?out st2 st3" unfolding st3_def by (rule same_except_select_items)
  moreover have "same_except ?out st3 st4" by (rule manual_loop_frame[OF m])
  moreover have "same_except ?out st4 st5" unfolding st5_def by (rule same_except_run_jobs)
  ultimately show ?thesis using ne unfolding eq by (simp add: same_except_def)
qed

theorem translate_locale_frame_witness:
  "(0::nat) < next_ref example_state \<and>
   heap (snd (translate_locale example_manual example_env 0 1 ''fr'' ''French'' ''fr''
                ''lib/l10n/app_fr.arb'' example_args None example_state)) 0 = example_source \<and>
   next_ref (snd (translate_locale example_manual example_env 0 1 ''fr'' ''French'' ''fr''
                ''lib/l10n/app_fr.arb'' example_args None example_state)) = 3"
proof -
  have h: "(0::nat) < next_ref example_state" by (simp add: example_state_def)
  have s: "heap example_state 0 = example_source" by (simp add: example_state_def)
  have n: "Suc (next_ref example_state) = 3" by (simp add: example_state_def)
  from translate_locale_frame [OF h, of example_manual example_env 0 1 "''fr''" "''French''" "''fr''"
         "''lib/l10n/app_fr.arb''" example_args None] h s n
  show ?thesis by simp
qed

section \<open>The token extractor\<close>

lemma finditer_from_sound:
  "m \<in> set (finditer_from r s pos) \<Longrightarrow>
     pos \<le> m_start m \<and> m_start m \<le> length s \<and>
     (\<exists>rest ms. rxm r ([], drop (m_start m) s) = (m_group1 m, rest) # ms \<and>
                m_end m = length s - length rest)"
proof (induction r s pos rule: finditer_from.induct)
  case (1 r s pos)
  note unf = finditer_from.simps[of r s pos]
  show ?case
  proof (cases "length s < pos")
    case True
    with "1.prems" show ?thesis unfolding unf by simp
  next
    case False
    show ?thesis
    proof (cases "rxm r ([], drop pos s)")
      case Nil
      with False "1.prems" have "m \<in> set (finditer_from r s (Suc pos))"
        unfolding unf by simp
      from "1.IH"(1)[OF False Nil this] show ?thesis by auto
    next
      case (Cons x xs)
      obtain g rest where x: "x = (g, rest)" by (cases x)
      let ?next = "if pos < length s - length rest then length s - length rest else Suc pos"
      from False "1.prems" Cons x
      have "m = \<lparr>m_start = pos, m_end = length s - length rest, m_group1 = g\<rparr> \<or>
            m \<in> set (finditer_from r s ?next)"
        unfolding unf by simp
      then show ?thesis
      proof
        assume "m = \<lparr>m_start = pos, m_end = length s - length rest, m_group1 = g\<rparr>"
        then show ?thesis using False Cons x by simp
      next
        assume "m \<in> set (finditer_from r s ?next)"
        from "1.IH"(2)[OF False Cons x[symmetric] this] show ?thesis
          by (auto split: if_splits)
      qed
    qed
  qed
qed

lemma rxm_Alt_mem:
  "(g', r) \<in> set (rxm (Alt a b) (g, s)) \<longleftrightarrow>
   (g', r) \<in> set (rxm a (g, s)) \<or> (g', r) \<in> set (rxm b (g, s))"
  by simp

lemma rxm_no_grp: "no_grp a \<Longrightarrow> (g', r) \<in> set (rxm a (g, s)) \<Longrightarrow> g' = g"
proof (induction a arbitrary: g s g' r)
  case (Seq a b)
  then obtain g1 r1 where "(g1, r1) \<in> set (rxm a (g, s))" "(g', r) \<in> set (rxm b (g1, r1))"
    by auto
  with Seq show ?case by (metis no_grp.simps(2))
next
  case (Plus p)
  then show ?case unfolding rxm_Plus_mem by simp
qed (auto split: list.splits if_splits)

lemma no_grp_litsI: "no_grp (litsI w)"
  by (induction w) auto

lemma no_grp_lits: "no_grp (lits w)"
  by (induction w) auto

lemma not_space_comma: "\<not> is_space CHR '',''"
  by (simp add: is_space_def code_def)

lemma not_word_comma: "\<not> is_word CHR '',''"
  by (simp add: is_word_def code_def)

lemma not_word_closing: "\<not> is_word CHR ''}''"
  by (simp add: is_word_def code_def)

lemma SIMPLE_shape:
  assumes "(g, rest) \<in> set (rxm SIMPLE_PLACEHOLDER_RE (g0, u))"
  shows "u = ''{'' @ g @ ''}'' @ rest \<and> g \<noteq> [] \<and> list_all is_word g"
proof -
  from assms obtain r1 g2 r2 where
    1: "u = CHR ''{'' # r1" and 2: "(g2, r2) \<in> set (rxm (Grp (Plus is_word)) (g0, r1))"
    and 3: "(g, rest) \<in> set (rxm (Chr CHR ''}'') (g2, r2))"
    unfolding SIMPLE_PLACEHOLDER_RE_def rxm_Seq_mem rxm_Chr_mem by blast
  from 2 obtain w where w: "w \<noteq> []" "r1 = w @ r2" "list_all is_word w"
    and g2: "g2 = take (length r1 - length r2) r1"
    unfolding rxm_Grp_mem rxm_Plus_mem by blast
  from w g2 have "g2 = w" by simp
  moreover from 3 have "g = g2" "r2 = CHR ''}'' # rest" unfolding rxm_Chr_mem by auto
  ultimately show ?thesis using 1 w by simp
qed

lemma ICU_shape:
  assumes "(g, rest) \<in> set (rxm ICU_VAR_RE (g0, u))"
  shows "\<exists>ws v. u = ''{'' @ g @ ws @ '','' @ v \<and> list_all is_space ws \<and> g \<noteq> [] \<and> list_all is_word g"
proof -
  let ?tail = "Seq (Star is_space) (Seq icu_keyword (Seq (Star is_space) (Chr CHR '','')))"
  from assms obtain r1 g2 r2 g3 r3 g4 r4 where
    1: "u = CHR ''{'' # r1" and 2: "(g2, r2) \<in> set (rxm (Grp (Plus is_word)) (g0, r1))"
    and 3: "(g3, r3) \<in> set (rxm (Star is_space) (g2, r2))"
    and 4: "(g4, r4) \<in> set (rxm (Chr CHR '','') (g3, r3))"
    and 5: "(g, rest) \<in> set (rxm ?tail (g4, r4))"
    unfolding ICU_VAR_RE_def rxm_Seq_mem[of _ _ "Chr CHR ''{''"]
      rxm_Seq_mem[of _ _ "Grp (Plus is_word)"] rxm_Seq_mem[of _ _ "Star is_space" "Seq (Chr CHR '','') _"]
      rxm_Seq_mem[of _ _ "Chr CHR '',''"] rxm_Chr_mem[of _ _ "CHR ''{''"]
    by blast
  from 2 obtain w where w: "w \<noteq> []" "r1 = w @ r2" "list_all is_word w"
    and g2: "g2 = take (length r1 - length r2) r1"
    unfolding rxm_Grp_mem rxm_Plus_mem by blast
  from w g2 have "g2 = w" by simp
  moreover from 3 obtain ws where "g3 = g2" "r2 = ws @ r3" "list_all is_space ws"
    unfolding rxm_Star_mem by blast
  moreover from 4 have "g4 = g3" "r3 = CHR '','' # r4" unfolding rxm_Chr_mem by auto
  moreover have "no_grp ?tail" by (simp add: icu_keyword_def no_grp_litsI)
  from rxm_no_grp[OF this 5] have "g = g4" .
  ultimately show ?thesis using 1 w by auto
qed

lemma startswith_append: "startswith (p @ r) p"
  by (simp add: startswith_def)

lemma startswith_iff: "startswith s p \<longleftrightarrow> (\<exists>r. s = p @ r)"
  unfolding startswith_def
  by (metis append_eq_conv_conj append_take_drop_id)

lemma dropWhile_space_comma:
  "startswith (dropWhile is_space t) '','' \<longleftrightarrow> (\<exists>ws v. t = ws @ '','' @ v \<and> list_all is_space ws)"
proof
  assume "startswith (dropWhile is_space t) '',''"
  then obtain v where "dropWhile is_space t = '','' @ v" unfolding startswith_iff by blast
  then have "t = takeWhile is_space t @ '','' @ v"
    by (metis takeWhile_dropWhile_id)
  moreover have "list_all is_space (takeWhile is_space t)"
    by (simp add: list_all_iff) (meson set_takeWhileD)
  ultimately show "\<exists>ws v. t = ws @ '','' @ v \<and> list_all is_space ws" by blast
next
  assume "\<exists>ws v. t = ws @ '','' @ v \<and> list_all is_space ws"
  then obtain ws v where t: "t = ws @ '','' @ v" and ws: "list_all is_space ws" by blast
  have "dropWhile is_space t = '','' @ v"
    unfolding t using ws not_space_comma
    by (simp add: dropWhile_append list_all_iff)
  then show "startswith (dropWhile is_space t) '',''"
    by (simp add: startswith_def)
qed

lemma name_pattern_mem:
  "(g, r) \<in> set (rxm (name_pattern name) (g0, u)) \<longleftrightarrow>
     g = g0 \<and> (u = ''{'' @ name @ ''}'' @ r \<or>
               (\<exists>ws. u = ''{'' @ name @ ws @ '','' @ r \<and> list_all is_space ws))"
proof
  assume "(g, r) \<in> set (rxm (name_pattern name) (g0, u))"
  then obtain g1 r1 g2 r2 where 1: "g1 = g0" "u = CHR ''{'' # r1"
    and 2: "g2 = g1" "r1 = name @ r2"
    and 3: "(g, r) \<in> set (rxm (Alt (Chr CHR ''}'') (Seq (Star is_space) (Chr CHR '',''))) (g2, r2))"
    unfolding name_pattern_def rxm_Seq_mem[of _ _ "Chr CHR ''{''"] rxm_Seq_mem[of _ _ "lits name"]
      rxm_Chr_mem[of _ _ "CHR ''{''"] rxm_lits_mem
    by blast
  from 3 have "g = g2 \<and> (r2 = CHR ''}'' # r \<or> (\<exists>ws. r2 = ws @ CHR '','' # r \<and> list_all is_space ws))"
    unfolding rxm_Alt_mem rxm_Seq_mem rxm_Chr_mem rxm_Star_mem by auto
  with 1 2 show "g = g0 \<and> (u = ''{'' @ name @ ''}'' @ r \<or>
               (\<exists>ws. u = ''{'' @ name @ ws @ '','' @ r \<and> list_all is_space ws))"
    by auto
next
  assume a: "g = g0 \<and> (u = ''{'' @ name @ ''}'' @ r \<or>
               (\<exists>ws. u = ''{'' @ name @ ws @ '','' @ r \<and> list_all is_space ws))"
  then obtain r2 where u: "u = CHR ''{'' # name @ r2"
    and r2: "r2 = CHR ''}'' # r \<or> (\<exists>ws. r2 = ws @ CHR '','' # r \<and> list_all is_space ws)"
    by auto
  have "(g0, r) \<in> set (rxm (Alt (Chr CHR ''}'') (Seq (Star is_space) (Chr CHR '',''))) (g0, r2))"
    using r2 unfolding rxm_Alt_mem rxm_Seq_mem rxm_Chr_mem rxm_Star_mem by auto
  moreover have "(g0, r2) \<in> set (rxm (lits name) (g0, name @ r2))" unfolding rxm_lits_mem by simp
  moreover have "(g0, name @ r2) \<in> set (rxm (Chr CHR ''{'') (g0, u))" unfolding rxm_Chr_mem u by simp
  ultimately show "(g, r) \<in> set (rxm (name_pattern name) (g0, u))"
    using a unfolding name_pattern_def rxm_Seq_mem[of _ _ "Chr CHR ''{''"] rxm_Seq_mem[of _ _ "lits name"]
    by blast
qed

lemma name_pattern_matches_iff: "rxm (name_pattern name) ([], u) \<noteq> [] \<longleftrightarrow> token_at name u"
proof -
  have "rxm (name_pattern name) ([], u) \<noteq> [] \<longleftrightarrow> (\<exists>g r. (g, r) \<in> set (rxm (name_pattern name) ([], u)))"
    by (cases "rxm (name_pattern name) ([], u)") auto
  also have "\<dots> \<longleftrightarrow> (\<exists>t. u = ''{'' @ name @ t \<and>
                     ((\<exists>r. t = ''}'' @ r) \<or> (\<exists>ws v. t = ws @ '','' @ v \<and> list_all is_space ws)))"
    unfolding name_pattern_mem by auto
  also have "\<dots> \<longleftrightarrow> token_at name u"
  proof
    assume "\<exists>t. u = ''{'' @ name @ t \<and>
                     ((\<exists>r. t = ''}'' @ r) \<or> (\<exists>ws v. t = ws @ '','' @ v \<and> list_all is_space ws))"
    then obtain t where u: "u = ''{'' @ name @ t"
      and t: "(\<exists>r. t = ''}'' @ r) \<or> (\<exists>ws v. t = ws @ '','' @ v \<and> list_all is_space ws)" by blast
    have "startswith u (''{'' @ name)" unfolding u using startswith_append[of "''{'' @ name" t] by simp
    moreover have "drop (Suc (length name)) u = t" unfolding u by simp
    ultimately show "token_at name u"
      using t dropWhile_space_comma[of t] startswith_iff[of t "''}''"]
      unfolding token_at_def Let_def by simp
  next
    assume ta: "token_at name u"
    then obtain t where u: "u = (''{'' @ name) @ t"
      unfolding token_at_def using startswith_iff[of u "''{'' @ name"] by blast
    then have "drop (Suc (length name)) u = t" by simp
    with ta have "(\<exists>r. t = ''}'' @ r) \<or> (\<exists>ws v. t = ws @ '','' @ v \<and> list_all is_space ws)"
      using dropWhile_space_comma[of t] startswith_iff[of t "''}''"]
      unfolding token_at_def Let_def by simp
    with u show "\<exists>t. u = ''{'' @ name @ t \<and>
                     ((\<exists>r. t = ''}'' @ r) \<or> (\<exists>ws v. t = ws @ '','' @ v \<and> list_all is_space ws))"
      by auto
  qed
  finally show ?thesis .
qed

lemma re_search_name_pattern: "re_search (name_pattern name) c = has_token name c"
  by (simp add: re_search_def has_token_def name_pattern_matches_iff)

lemma fold_insert_group:
  "fold (\<lambda>m names. insert (m_group1 m) names) ms A = A \<union> m_group1 ` set ms"
  by (induction ms arbitrary: A) auto

lemma simple_step_eq:
  "simple_step s m A = (if simple_skipped s m then A else insert (m_group1 m) A)"
  by (simp add: simple_step_def simple_skipped_def Let_def)

lemma fold_simple_step:
  "fold (simple_step s) ms A = A \<union> m_group1 ` {m \<in> set ms. \<not> simple_skipped s m}"
  by (induction ms arbitrary: A) (auto simp: simple_step_eq)

lemma extract_names_set:
  "set (extract_placeholder_names s) =
     m_group1 ` set (finditer ICU_VAR_RE s) \<union>
     m_group1 ` {m \<in> set (finditer SIMPLE_PLACEHOLDER_RE s). \<not> simple_skipped s m}"
  by (simp add: extract_placeholder_names_def Let_def fold_insert_group fold_simple_step)

lemma extract_names_sorted: "sorted (extract_placeholder_names s) \<and> distinct (extract_placeholder_names s)"
  by (simp add: extract_placeholder_names_def Let_def)

lemma has_token_iff: "has_token name c \<longleftrightarrow> (\<exists>i\<le>length c. token_at name (drop i c))"
  by (auto simp: has_token_def list_ex_iff less_Suc_eq_le simp del: upt_Suc)

lemma finditer_sound:
  assumes "m \<in> set (finditer r s)"
  shows "m_start m \<le> length s \<and>
         (\<exists>rest. (m_group1 m, rest) \<in> set (rxm r ([], drop (m_start m) s)))"
proof -
  from finditer_from_sound[OF assms[unfolded finditer_def]]
  obtain rest ms where "m_start m \<le> length s"
    "rxm r ([], drop (m_start m) s) = (m_group1 m, rest) # ms" by blast
  then show ?thesis by (metis list.set_intros(1))
qed

lemma token_at_simple: "token_at g (''{'' @ g @ ''}'' @ rest)"
  by (simp add: token_at_def startswith_def)

lemma token_at_icu: "list_all is_space ws \<Longrightarrow> token_at g (''{'' @ g @ ws @ '','' @ v)"
  using dropWhile_space_comma[of "ws @ '','' @ v"]
  by (auto simp: token_at_def startswith_def[of _ "CHR ''{'' # g"] Let_def)

lemma icu_match_token:
  assumes "m \<in> set (finditer ICU_VAR_RE s)"
  shows "has_token (m_group1 m) s"
proof -
  from finditer_sound[OF assms] obtain rest where
    le: "m_start m \<le> length s" and
    mem: "(m_group1 m, rest) \<in> set (rxm ICU_VAR_RE ([], drop (m_start m) s))" by blast
  from ICU_shape[OF mem] obtain ws v where
    "drop (m_start m) s = ''{'' @ m_group1 m @ ws @ '','' @ v" "list_all is_space ws" by blast
  with token_at_icu[of ws "m_group1 m" v] have "token_at (m_group1 m) (drop (m_start m) s)" by simp
  with le show ?thesis unfolding has_token_iff by blast
qed

lemma simple_match_token:
  assumes "m \<in> set (finditer SIMPLE_PLACEHOLDER_RE s)"
  shows "has_token (m_group1 m) s"
proof -
  from finditer_sound[OF assms] obtain rest where
    le: "m_start m \<le> length s" and
    mem: "(m_group1 m, rest) \<in> set (rxm SIMPLE_PLACEHOLDER_RE ([], drop (m_start m) s))" by blast
  from SIMPLE_shape[OF mem] have
    "drop (m_start m) s = ''{'' @ m_group1 m @ ''}'' @ rest" by blast
  with token_at_simple[of "m_group1 m" rest] have "token_at (m_group1 m) (drop (m_start m) s)" by simp
  with le show ?thesis unfolding has_token_iff by blast
qed

lemma extracted_name_has_token:
  "n \<in> set (extract_placeholder_names s) \<Longrightarrow> has_token n s"
  unfolding extract_names_set using icu_match_token simple_match_token by blast


text \<open>
  Claim C5. A candidate equal to the source text passes the validator, for every source
  text: each extracted name comes from a match of one of the two patterns, and the text of
  that match begins with the token of the name.
\<close>

theorem validate_identity:
  "validate_preserved_tokens s s = (True, None)"
  unfolding validate_passes_iff re_search_name_pattern
  using extracted_name_has_token by blast

lemma check_names_first_missing:
  assumes "n \<in> set ns" "\<not> re_search (name_pattern n) out"
  shows "\<exists>pre m post. ns = pre @ m # post \<and> (\<forall>k\<in>set pre. re_search (name_pattern k) out) \<and>
           \<not> re_search (name_pattern m) out \<and>
           check_names ns out = (False, Some (''Missing placeholder: {'' @ m @ ''}''))"
  using assms
proof (induction ns)
  case Nil
  then show ?case by simp
next
  case (Cons a ns)
  show ?case
  proof (cases "re_search (name_pattern a) out")
    case False
    then have "a # ns = [] @ a # ns \<and> (\<forall>k\<in>set []. re_search (name_pattern k) out) \<and>
           \<not> re_search (name_pattern a) out \<and>
           check_names (a # ns) out = (False, Some (''Missing placeholder: {'' @ a @ ''}''))"
      by simp
    then show ?thesis by blast
  next
    case True
    with Cons.prems have "n \<in> set ns" by auto
    from Cons.IH[OF this Cons.prems(2)] obtain pre m post where
      "ns = pre @ m # post" "\<forall>k\<in>set pre. re_search (name_pattern k) out"
      "\<not> re_search (name_pattern m) out"
      "check_names ns out = (False, Some (''Missing placeholder: {'' @ m @ ''}''))" by blast
    with True have "a # ns = (a # pre) @ m # post \<and> (\<forall>k\<in>set (a # pre). re_search (name_pattern k) out) \<and>
           \<not> re_search (name_pattern m) out \<and>
           check_names (a # ns) out = (False, Some (''Missing placeholder: {'' @ m @ ''}''))"
      by simp
    then show ?thesis by blast
  qed
qed

lemma validate_names_fail:
  "check_names (extract_placeholder_names src) out = (False, why) \<Longrightarrow>
   validate_preserved_tokens src out = (False, why)"
  by (simp add: validate_preserved_tokens_def)


text \<open>
  Claim C6, as the code has it. If a protected name \<open>n\<close> of the source has no token in the
  candidate, the validator fails, and its reason names the first name, in the sorted
  order of the extractor, that has no token: a name \<open>m\<close> not after \<open>n\<close>, and \<open>n\<close> itself
  when every name before \<open>n\<close> has its token. The token is \<open>{m}\<close>, or \<open>{m\<close> followed by white
  space (maybe none) and a comma.
\<close>

theorem validate_names_first_missing:
  assumes "n \<in> set (extract_placeholder_names s)" and "\<not> has_token n c"
  shows "\<exists>m \<in> set (extract_placeholder_names s).
           \<not> has_token m c \<and> m \<le> n \<and>
           (\<forall>k \<in> set (extract_placeholder_names s). k < m \<longrightarrow> has_token k c) \<and>
           validate_preserved_tokens s c = (False, Some (''Missing placeholder: {'' @ m @ ''}''))"
proof -
  let ?ns = "extract_placeholder_names s"
  from assms(2) have "\<not> re_search (name_pattern n) c" by (simp add: re_search_name_pattern)
  from check_names_first_missing[OF assms(1) this] obtain pre m post where
    ns: "?ns = pre @ m # post" and pre: "\<forall>k\<in>set pre. has_token k c"
    and m: "\<not> has_token m c"
    and ch: "check_names ?ns c = (False, Some (''Missing placeholder: {'' @ m @ ''}''))"
    unfolding re_search_name_pattern by blast
  have sd: "sorted (pre @ m # post)" "distinct (pre @ m # post)"
    using extract_names_sorted[of s] unfolding ns by simp_all
  have post: "\<forall>k\<in>set post. m < k"
    using sd by (auto simp: sorted_append order_less_le)
  have "n \<in> set pre \<union> {m} \<union> set post" using assms(1) unfolding ns by auto
  with pre assms(2) post have "m \<le> n" by auto
  moreover have "\<forall>k \<in> set ?ns. k < m \<longrightarrow> has_token k c"
    unfolding ns using pre post by auto
  moreover have "m \<in> set ?ns" unfolding ns by simp
  ultimately show ?thesis using m validate_names_fail[OF ch] by blast
qed

theorem validate_names_first_missing_witness:
  "''total'' \<in> set (extract_placeholder_names ''{count} of {total}'') \<and>
   \<not> has_token ''total'' ''{count} av'' \<and>
   validate_preserved_tokens ''{count} of {total}'' ''{count} av'' =
     (False, Some ''Missing placeholder: {total}'')"
proof -
  have e: "extract_placeholder_names ''{count} of {total}'' = [''count'', ''total'']" by code_simp
  have h1: "''total'' \<in> set (extract_placeholder_names ''{count} of {total}'')" by (simp add: e)
  have h2: "\<not> has_token ''total'' ''{count} av''" by code_simp
  have hc: "has_token ''count'' ''{count} av''" by code_simp
  from validate_names_first_missing [OF h1 h2] obtain m where
    m: "m \<in> set (extract_placeholder_names ''{count} of {total}'')" "\<not> has_token m ''{count} av''"
    and v: "validate_preserved_tokens ''{count} of {total}'' ''{count} av'' =
              (False, Some (''Missing placeholder: {'' @ m @ ''}''))"
    by blast
  from m hc have "m = ''total''" unfolding e by auto
  with v h1 h2 show ?thesis by simp
qed

text \<open>
  The claim as stated fails twice: when two names are missing the reason names the first
  and not the second, and a candidate with \<open>{n ,\<close> contains neither \<open>{n}\<close> nor \<open>{n,\<close> and
  passes.
\<close>

theorem validate_reason_not_always_that_token:
  "''total'' \<in> set (extract_placeholder_names ''{count} of {total}'') \<and>
   \<not> contains ''x'' ''{total}'' \<and> \<not> contains ''x'' ''{total,'' \<and>
   validate_preserved_tokens ''{count} of {total}'' ''x'' = (False, Some ''Missing placeholder: {count}'') \<and>
   ''n'' \<in> set (extract_placeholder_names ''{n}'') \<and>
   \<not> contains ''{n , number}'' ''{n}'' \<and> \<not> contains ''{n , number}'' ''{n,'' \<and>
   validate_preserved_tokens ''{n}'' ''{n , number}'' = (True, None)"
  by code_simp

section \<open>Case labels\<close>

lemma rxm_ChrI_mem:
  "(g', r) \<in> set (rxm (ChrI c) (g, s)) \<longleftrightarrow> g' = g \<and> (\<exists>x. s = x # r \<and> lower_char x = lower_char c)"
  by (auto split: list.splits)

lemma rxm_litsI_mem:
  "(g', r) \<in> set (rxm (litsI w) (g, s)) \<longleftrightarrow>
     g' = g \<and> (\<exists>x. s = x @ r \<and> map lower_char x = map lower_char w)"
proof (induction w arbitrary: s g)
  case Nil
  then show ?case by auto
next
  case (Cons c w)
  show ?case
  proof
    assume "(g', r) \<in> set (rxm (litsI (c # w)) (g, s))"
    then obtain g1 r1 where "(g1, r1) \<in> set (rxm (ChrI c) (g, s))" "(g', r) \<in> set (rxm (litsI w) (g1, r1))"
      by auto
    then obtain x y where "g1 = g" "s = x # r1" "lower_char x = lower_char c"
      "g' = g1" "r1 = y @ r" "map lower_char y = map lower_char w"
      unfolding rxm_ChrI_mem Cons.IH by blast
    then have "g' = g \<and> s = (x # y) @ r \<and> map lower_char (x # y) = map lower_char (c # w)" by simp
    then show "g' = g \<and> (\<exists>x. s = x @ r \<and> map lower_char x = map lower_char (c # w))" by blast
  next
    assume "g' = g \<and> (\<exists>x. s = x @ r \<and> map lower_char x = map lower_char (c # w))"
    then obtain xs where g: "g' = g" and s: "s = xs @ r" and m: "map lower_char xs = map lower_char (c # w)"
      by blast
    from m obtain x y where xs: "xs = x # y" "lower_char x = lower_char c" "map lower_char y = map lower_char w"
      by (cases xs) auto
    have "(g, y @ r) \<in> set (rxm (ChrI c) (g, s))" unfolding rxm_ChrI_mem using s xs by simp
    moreover have "(g', r) \<in> set (rxm (litsI w) (g, y @ r))" unfolding Cons.IH using g xs by blast
    ultimately show "(g', r) \<in> set (rxm (litsI (c # w)) (g, s))"
      unfolding litsI.simps rxm_Seq_mem by blast
  qed
qed

lemma keywords_lower: "kw \<in> set plural_keywords \<Longrightarrow> map lower_char kw = kw"
  by (auto simp: plural_keywords_def lower_char_def code_def)

lemma recognises_Alt:
  assumes "recognises a P" "recognises b Q"
  shows "recognises (Alt a b) (\<lambda>lab. P lab \<or> Q lab)"
  unfolding recognises_def
proof (intro allI)
  fix g u g' r
  have A: "(g', r) \<in> set (rxm a (g, u)) \<longleftrightarrow> g' = g \<and> (\<exists>lab. u = lab @ r \<and> P lab)"
    using assms(1) unfolding recognises_def by simp
  have B: "(g', r) \<in> set (rxm b (g, u)) \<longleftrightarrow> g' = g \<and> (\<exists>lab. u = lab @ r \<and> Q lab)"
    using assms(2) unfolding recognises_def by simp
  show "(g', r) \<in> set (rxm (Alt a b) (g, u)) \<longleftrightarrow>
        g' = g \<and> (\<exists>lab. u = lab @ r \<and> (P lab \<or> Q lab))"
    unfolding rxm_Alt_mem A B by auto
qed

lemma recognises_litsI: "recognises (litsI w) (\<lambda>lab. map lower_char lab = map lower_char w)"
  unfolding recognises_def rxm_litsI_mem by blast

lemma recognises_explicit:
  "recognises (Seq (Chr CHR ''='') (Plus is_digit))
     (\<lambda>lab. \<exists>ds. lab = CHR ''='' # ds \<and> ds \<noteq> [] \<and> list_all is_digit ds)"
  unfolding recognises_def rxm_Seq_mem rxm_Chr_mem rxm_Plus_mem by auto

lemma recognises_cong: "recognises a P \<Longrightarrow> (\<And>lab. P lab = Q lab) \<Longrightarrow> recognises a Q"
  by (simp add: recognises_def)

lemma recognises_label_re: "recognises label_re is_label"
proof -
  have low: "map lower_char ''zero'' = ''zero''" "map lower_char ''one'' = ''one''"
      "map lower_char ''two'' = ''two''" "map lower_char ''few'' = ''few''"
      "map lower_char ''many'' = ''many''" "map lower_char ''other'' = ''other''"
    by (rule keywords_lower, simp add: plural_keywords_def)+
  note r = recognises_Alt[OF recognises_explicit
        recognises_Alt[OF recognises_litsI[of "''zero''"]
        recognises_Alt[OF recognises_litsI[of "''one''"]
        recognises_Alt[OF recognises_litsI[of "''two''"]
        recognises_Alt[OF recognises_litsI[of "''few''"]
        recognises_Alt[OF recognises_litsI[of "''many''"] recognises_litsI[of "''other''"]]]]]],
        folded label_re_def]
  show ?thesis
  proof (rule recognises_cong[OF r])
    fix lab
    show "((\<exists>ds. lab = CHR ''='' # ds \<and> ds \<noteq> [] \<and> list_all is_digit ds) \<or>
           map lower_char lab = map lower_char ''zero'' \<or> map lower_char lab = map lower_char ''one'' \<or>
           map lower_char lab = map lower_char ''two'' \<or> map lower_char lab = map lower_char ''few'' \<or>
           map lower_char lab = map lower_char ''many'' \<or> map lower_char lab = map lower_char ''other'')
          = is_label lab"
      unfolding low is_label_def plural_keywords_def
      by (simp only: set_simps insert_iff empty_iff simp_thms)
  qed
qed

lemma label_re_mem:
  "(g', r) \<in> set (rxm label_re (g, u)) \<longleftrightarrow> g' = g \<and> (\<exists>lab. u = lab @ r \<and> is_label lab)"
  using recognises_label_re unfolding recognises_def by blast

lemma is_space_newline: "is_space (CHR 0x0A)"
  by (simp add: is_space_def code_def)

lemma space_then_end:
  "rxm (Seq (Star is_space) Eos) (g, r1) \<noteq> [] \<longleftrightarrow> list_all is_space r1"
proof -
  have "rxm (Seq (Star is_space) Eos) (g, r1) \<noteq> [] \<longleftrightarrow>
          (\<exists>g' r. (g', r) \<in> set (rxm (Seq (Star is_space) Eos) (g, r1)))"
    by (cases "rxm (Seq (Star is_space) Eos) (g, r1)") auto
  also have "\<dots> \<longleftrightarrow> (\<exists>ws r2. r1 = ws @ r2 \<and> list_all is_space ws \<and> (r2 = [] \<or> r2 = [CHR 0x0A]))"
    unfolding rxm_Seq_mem rxm_Star_mem by (auto split: if_splits)
  also have "\<dots> \<longleftrightarrow> list_all is_space r1"
    using is_space_newline by auto
  finally show ?thesis .
qed

lemma case_label_re_split: "case_label_re = Seq label_re (Seq (Star is_space) Eos)"
  by (simp add: case_label_re_def label_re_def)

lemma case_label_match_iff:
  "rxm case_label_re ([], u) \<noteq> [] \<longleftrightarrow> (\<exists>lab ws. u = lab @ ws \<and> is_label lab \<and> list_all is_space ws)"
proof
  assume "rxm case_label_re ([], u) \<noteq> []"
  then obtain g r where "(g, r) \<in> set (rxm case_label_re ([], u))"
    by (cases "rxm case_label_re ([], u)") auto
  then obtain g1 r1 where 1: "(g1, r1) \<in> set (rxm label_re ([], u))"
    and 2: "(g, r) \<in> set (rxm (Seq (Star is_space) Eos) (g1, r1))"
    unfolding case_label_re_split rxm_Seq_mem[of _ _ label_re] by blast
  from 2 have "rxm (Seq (Star is_space) Eos) (g1, r1) \<noteq> []" by auto
  then have "list_all is_space r1" unfolding space_then_end .
  with 1 show "\<exists>lab ws. u = lab @ ws \<and> is_label lab \<and> list_all is_space ws"
    unfolding label_re_mem by blast
next
  assume "\<exists>lab ws. u = lab @ ws \<and> is_label lab \<and> list_all is_space ws"
  then obtain lab ws where u: "u = lab @ ws" "is_label lab" and ws: "list_all is_space ws" by blast
  then have 1: "([], ws) \<in> set (rxm label_re ([], u))" unfolding label_re_mem by blast
  from ws have "rxm (Seq (Star is_space) Eos) ([], ws) \<noteq> []" unfolding space_then_end .
  then obtain g r where "(g, r) \<in> set (rxm (Seq (Star is_space) Eos) ([], ws))"
    by (cases "rxm (Seq (Star is_space) Eos) ([], ws)") auto
  with 1 have "(g, r) \<in> set (rxm case_label_re ([], u))"
    unfolding case_label_re_split rxm_Seq_mem[of _ _ label_re] by blast
  then show "rxm case_label_re ([], u) \<noteq> []" by auto
qed

lemma case_label_search_iff:
  "re_search case_label_re b \<longleftrightarrow>
     (\<exists>pre lab ws. b = pre @ lab @ ws \<and> is_label lab \<and> list_all is_space ws)"
proof
  assume "re_search case_label_re b"
  then obtain i where "i \<le> length b" "rxm case_label_re ([], drop i b) \<noteq> []"
    unfolding re_search_iff by blast
  then obtain lab ws where "drop i b = lab @ ws" "is_label lab" "list_all is_space ws"
    unfolding case_label_match_iff by blast
  then have "b = take i b @ lab @ ws \<and> is_label lab \<and> list_all is_space ws"
    by (metis append_take_drop_id)
  then show "\<exists>pre lab ws. b = pre @ lab @ ws \<and> is_label lab \<and> list_all is_space ws" by blast
next
  assume "\<exists>pre lab ws. b = pre @ lab @ ws \<and> is_label lab \<and> list_all is_space ws"
  then obtain pre lab ws where b: "b = pre @ lab @ ws" and l: "is_label lab" "list_all is_space ws"
    by blast
  have "drop (length pre) b = lab @ ws" unfolding b by simp
  with l have "rxm case_label_re ([], drop (length pre) b) \<noteq> []"
    unfolding case_label_match_iff by blast
  moreover have "length pre \<le> length b" unfolding b by simp
  ultimately show "re_search case_label_re b" unfolding re_search_iff by blast
qed

lemma digit_not_space: "is_digit c \<Longrightarrow> \<not> is_space c"
  by (auto simp: is_digit_def is_space_def Let_def)

lemma space_lower: "is_space c \<Longrightarrow> lower_char c = c"
  by (auto simp: is_space_def lower_char_def Let_def)

lemma not_digit_equals: "\<not> is_digit CHR ''=''"
  by (simp add: is_digit_def code_def)

lemma keyword_last_not_space: "kw \<in> set plural_keywords \<Longrightarrow> kw \<noteq> [] \<and> \<not> is_space (last kw)"
  by (auto simp: plural_keywords_def is_space_def code_def)

lemma is_label_last: 
  assumes "is_label lab" shows "lab \<noteq> [] \<and> \<not> is_space (last lab)"
proof -
  from assms consider (ex) ds where "lab = CHR ''='' # ds" "ds \<noteq> []" "list_all is_digit ds"
    | (kw) "map lower_char lab \<in> set plural_keywords"
    unfolding is_label_def by blast
  then show ?thesis
  proof cases
    case ex
    then have "last lab = last ds" "is_digit (last ds)" by (auto simp: list_all_iff)
    with ex show ?thesis using digit_not_space by auto
  next
    case kw
    from keyword_last_not_space[OF kw] have ne: "lab \<noteq> []" and ns: "\<not> is_space (last (map lower_char lab))"
      by auto
    from ne have "last (map lower_char lab) = lower_char (last lab)" by (simp add: last_map)
    with ns space_lower[of "last lab"] ne show ?thesis by auto
  qed
qed

lemma rstrip_append_spaces:
  assumes "list_all is_space ws" "lab \<noteq> []" "\<not> is_space (last lab)"
  shows "rstrip (pre @ lab @ ws) = pre @ lab"
proof -
  obtain xs where rl: "rev lab = last lab # xs"
    using assms(2) by (cases lab rule: rev_cases) auto
  have "dropWhile is_space (rev lab @ rev pre) = rev lab @ rev pre"
    unfolding rl using assms(3) by simp
  moreover have "\<forall>x\<in>set (rev ws). is_space x" using assms(1) by (simp add: list_all_iff)
  ultimately have "dropWhile is_space (rev (pre @ lab @ ws)) = rev lab @ rev pre"
    by (simp add: dropWhile_append)
  then show ?thesis by (simp add: rstrip_def)
qed

lemma rstrip_decompose: "\<exists>ws. b = rstrip b @ ws \<and> list_all is_space ws"
proof -
  have "rev b = takeWhile is_space (rev b) @ dropWhile is_space (rev b)" by simp
  then have "b = rev (dropWhile is_space (rev b)) @ rev (takeWhile is_space (rev b))"
    by (metis rev_append rev_rev_ident)
  moreover have "list_all is_space (rev (takeWhile is_space (rev b)))"
    by (simp add: list_all_iff) (meson set_takeWhileD)
  ultimately show ?thesis unfolding rstrip_def by blast
qed

lemma label_before_spaces_iff:
  "(\<exists>pre lab ws. b = pre @ lab @ ws \<and> is_label lab \<and> list_all is_space ws) \<longleftrightarrow>
   (\<exists>pre lab. rstrip b = pre @ lab \<and> is_label lab)"
proof
  assume "\<exists>pre lab ws. b = pre @ lab @ ws \<and> is_label lab \<and> list_all is_space ws"
  then obtain pre lab ws where b: "b = pre @ lab @ ws" and l: "is_label lab" and ws: "list_all is_space ws"
    by blast
  from is_label_last[OF l] rstrip_append_spaces[OF ws] have "rstrip b = pre @ lab" unfolding b by blast
  with l show "\<exists>pre lab. rstrip b = pre @ lab \<and> is_label lab" by blast
next
  assume "\<exists>pre lab. rstrip b = pre @ lab \<and> is_label lab"
  then obtain pre lab where r: "rstrip b = pre @ lab" and l: "is_label lab" by blast
  from rstrip_decompose[of b] obtain ws where "b = rstrip b @ ws" "list_all is_space ws" by blast
  with r l have "b = pre @ lab @ ws \<and> is_label lab \<and> list_all is_space ws" by simp
  then show "\<exists>pre lab ws. b = pre @ lab @ ws \<and> is_label lab \<and> list_all is_space ws" by blast
qed

lemma endswith_ci_iff:
  "endswith_ci t kw \<longleftrightarrow> (\<exists>pre lab. t = pre @ lab \<and> map lower_char lab = kw)"
proof
  assume "endswith_ci t kw"
  then have "t = take (length t - length kw) t @ drop (length t - length kw) t \<and>
             map lower_char (drop (length t - length kw) t) = kw"
    by (simp add: endswith_ci_def)
  then show "\<exists>pre lab. t = pre @ lab \<and> map lower_char lab = kw" by blast
next
  assume "\<exists>pre lab. t = pre @ lab \<and> map lower_char lab = kw"
  then obtain pre lab where t: "t = pre @ lab" and m: "map lower_char lab = kw" by blast
  from m have "length lab = length kw" by (metis length_map)
  then show "endswith_ci t kw" unfolding endswith_ci_def t using m by simp
qed

lemma endswith_explicit_iff:
  "endswith_explicit t \<longleftrightarrow> (\<exists>pre ds. t = pre @ CHR ''='' # ds \<and> ds \<noteq> [] \<and> list_all is_digit ds)"
proof
  assume "endswith_explicit t"
  then have ne: "takeWhile is_digit (rev t) \<noteq> []"
    and st: "startswith (dropWhile is_digit (rev t)) ''=''"
    by (simp_all add: endswith_explicit_def Let_def dropWhile_eq_drop)
  from st obtain rest where d: "dropWhile is_digit (rev t) = CHR ''='' # rest"
    unfolding startswith_iff by auto
  have "rev t = takeWhile is_digit (rev t) @ CHR ''='' # rest"
    using d by (metis takeWhile_dropWhile_id)
  then have "t = rev rest @ CHR ''='' # rev (takeWhile is_digit (rev t))"
    by (metis rev_append rev_rev_ident rev.simps(2) append_Cons append_Nil append_assoc)
  moreover have "list_all is_digit (rev (takeWhile is_digit (rev t)))"
    by (simp add: list_all_iff) (meson set_takeWhileD)
  ultimately show "\<exists>pre ds. t = pre @ CHR ''='' # ds \<and> ds \<noteq> [] \<and> list_all is_digit ds"
    using ne by (metis rev_is_Nil_conv)
next
  assume "\<exists>pre ds. t = pre @ CHR ''='' # ds \<and> ds \<noteq> [] \<and> list_all is_digit ds"
  then obtain pre ds where t: "t = pre @ CHR ''='' # ds" and ds: "ds \<noteq> []" "list_all is_digit ds"
    by blast
  have r: "rev t = rev ds @ CHR ''='' # rev pre" unfolding t by simp
  have "takeWhile is_digit (rev ds @ CHR ''='' # rev pre) =
        rev ds @ takeWhile is_digit (CHR ''='' # rev pre)"
    by (rule takeWhile_append2) (use ds(2) in \<open>simp add: list_all_iff\<close>)
  then have tw: "takeWhile is_digit (rev t) = rev ds"
    unfolding r using not_digit_equals by simp
  have "drop (length (rev ds)) (rev t) = CHR ''='' # rev pre" unfolding r by simp
  then show "endswith_explicit t"
    unfolding endswith_explicit_def Let_def tw using ds(1) by (simp add: startswith_def)
qed

lemma label_suffix_iff:
  "(\<exists>pre lab. t = pre @ lab \<and> is_label lab) \<longleftrightarrow>
   endswith_explicit t \<or> list_ex (endswith_ci t) plural_keywords"
proof -
  have "list_ex (endswith_ci t) plural_keywords \<longleftrightarrow>
        (\<exists>pre lab. t = pre @ lab \<and> map lower_char lab \<in> set plural_keywords)"
    unfolding list_ex_iff endswith_ci_iff by blast
  moreover have "endswith_explicit t \<longleftrightarrow>
        (\<exists>pre lab. t = pre @ lab \<and> (\<exists>ds. lab = CHR ''='' # ds \<and> ds \<noteq> [] \<and> list_all is_digit ds))"
    unfolding endswith_explicit_iff by blast
  ultimately show ?thesis unfolding is_label_def by blast
qed

lemma case_label_search_after: "re_search case_label_re b = after_case_label b"
  unfolding case_label_search_iff label_before_spaces_iff label_suffix_iff after_case_label_def Let_def
  by (rule refl)

lemma list_ex_upto: "list_ex P [0..<Suc n] \<longleftrightarrow> (\<exists>i\<le>n. P i)"
  by (auto simp: list_ex_iff less_Suc_eq_le simp del: upt_Suc)

lemma icu_match_argument:
  assumes "m \<in> set (finditer ICU_VAR_RE s)"
  shows "has_icu_argument (m_group1 m) s"
proof -
  from finditer_sound[OF assms] obtain rest where
    le: "m_start m \<le> length s" and
    mem: "(m_group1 m, rest) \<in> set (rxm ICU_VAR_RE ([], drop (m_start m) s))" by blast
  from ICU_shape[OF mem] obtain ws v where
    d: "drop (m_start m) s = ''{'' @ m_group1 m @ ws @ '','' @ v" and ws: "list_all is_space ws" by blast
  have "startswith (drop (m_start m) s) (''{'' @ m_group1 m)"
    unfolding d startswith_iff by simp
  moreover have "drop (Suc (length (m_group1 m))) (drop (m_start m) s) = ws @ '','' @ v"
    unfolding d by simp
  with ws have "startswith (dropWhile is_space (drop (Suc (length (m_group1 m))) (drop (m_start m) s))) '',''"
    using dropWhile_space_comma[of "ws @ '','' @ v"] by auto
  ultimately show ?thesis using le unfolding has_icu_argument_def list_ex_upto by blast
qed

lemma simple_match_free:
  assumes "m \<in> set (finditer SIMPLE_PLACEHOLDER_RE s)" "\<not> simple_skipped s m"
  shows "has_free_placeholder (m_group1 m) s"
proof -
  from finditer_sound[OF assms(1)] obtain rest where
    le: "m_start m \<le> length s" and
    mem: "(m_group1 m, rest) \<in> set (rxm SIMPLE_PLACEHOLDER_RE ([], drop (m_start m) s))" by blast
  from SIMPLE_shape[OF mem] have
    "drop (m_start m) s = (''{'' @ m_group1 m @ ''}'') @ rest" by simp
  then have "startswith (drop (m_start m) s) (''{'' @ m_group1 m @ ''}'')"
    unfolding startswith_iff by blast
  moreover from assms(2) have "\<not> after_case_label (take (m_start m) s)"
    unfolding simple_skipped_def case_label_search_after by simp
  ultimately show ?thesis using le unfolding has_free_placeholder_def list_ex_upto by blast
qed

text \<open>
  What the extractor guarantees: a reported name is the argument of a construct of the
  text, or it stands in braces at a place that does not follow \<open>=\<close> and digits or one of the
  keywords zero, one, two, few, many, other. The probe of the specification gives the one
  name \<open>count\<close>, and the list of names is sorted and without duplicates
  (\<open>extract_names_sorted\<close>).
\<close>

lemma reported_name_occurrence:
  "n \<in> set (extract_placeholder_names s) \<Longrightarrow> has_icu_argument n s \<or> has_free_placeholder n s"
  unfolding extract_names_set using icu_match_argument simple_match_free by blast

lemma probe_tokens:
  "extract_placeholder_names ''{count, plural, =1{one file} other{{count} files}}'' = [''count''] \<and>
   has_icu_block ''{count, plural, =1{one file} other{{count} files}}''"
  by code_simp

text \<open>
  Claim C3. The braces of the case labels of an ICU body are not placeholder names. The
  extractor knows the labels of a plural only: in a select, the brace after the label
  \<open>male\<close> is reported as the placeholder \<open>he\<close>, next to the brace after \<open>other\<close>, which is not
  reported, and the validator then rejects a translation of the select that translates
  the text of that case.
\<close>

theorem select_case_label_reported:
  "extract_placeholder_names ''{gender, select, male{he} other{they}}'' = [''gender'', ''he''] \<and>
   validate_preserved_tokens ''{gender, select, male{he} other{they}}''
     ''{gender, select, male{il} other{ils}}'' = (False, Some ''Missing placeholder: {he}'')"
  by code_simp

end
